theory Spec2Isabelle
  imports Main "HOL-Library.Word" "HOL-Library.Multiset"
begin

section \<open>vmdlib: a codec for VMD motion files\<close>

text \<open>
  A shallow embedding of \<^verbatim>\<open>vmd.h\<close> and \<^verbatim>\<open>vmd.c\<close>. The C code copies packed
  structs in and out of a flat byte buffer with \<^verbatim>\<open>memcpy\<close>, \<^verbatim>\<open>fread\<close> and
  \<^verbatim>\<open>fwrite\<close>, so memory is modelled as it is used there: a buffer is a list of bytes,
  a record is the slice of bytes it occupies, and a field is read at its offset in the
  packed layout. Floats are never computed with, only copied, and stay raw bytes.
  Multi-byte integers are little-endian, the byte order of the format and of the
  machines the library is built for.
\<close>

subsection \<open>Bytes, words and outcomes\<close>

type_synonym byte = "8 word"
type_synonym u32 = "32 word"

text \<open>
  An operation of the C program either returns, or it does something whose behaviour C
  leaves undefined. The second case is kept as a value of its own, naming what was done:
  \<^item> \<open>ReadPastEnd\<close>: a copy or comparison whose source holds fewer bytes than requested;
  \<^item> \<open>NullWrite\<close>: a \<^verbatim>\<open>memcpy\<close> whose destination is a null pointer;
  \<^item> \<open>NullCall\<close>: \<^verbatim>\<open>qsort\<close> handed a null comparison function;
  \<^item> \<open>ArrayOverrun\<close>: \<^verbatim>\<open>qsort\<close> told that the array holds more bytes than
    its storage has.
\<close>

datatype fault = ReadPastEnd | NullWrite | NullCall | ArrayOverrun

datatype 'a outcome = Fault fault | Done 'a

fun obind :: "'a outcome \<Rightarrow> ('a \<Rightarrow> 'b outcome) \<Rightarrow> 'b outcome" where
  "obind (Fault f) k = Fault f"
| "obind (Done x) k = k x"

text \<open>Reading \<open>n\<close> bytes at offset \<open>off\<close> of a buffer: \<^verbatim>\<open>memcpy(dst, buf + off, n)\<close>.\<close>

definition memread :: "byte list \<Rightarrow> nat \<Rightarrow> nat \<Rightarrow> byte list outcome" where
  "memread buf off n =
     (if off + n \<le> length buf then Done (take n (drop off buf)) else Fault ReadPastEnd)"

text \<open>A \<^verbatim>\<open>uint32_t\<close> in memory, least significant byte first.\<close>

fun u32_of_bytes :: "byte list \<Rightarrow> u32" where
  "u32_of_bytes (b0 # b1 # b2 # b3 # rest) =
     of_nat (unat b0 + 256 * unat b1 + 65536 * unat b2 + 16777216 * unat b3)"
| "u32_of_bytes bs = 0"

definition bytes_of_u32 :: "u32 \<Rightarrow> byte list" where
  "bytes_of_u32 w =
     [of_nat (unat w mod 256), of_nat (unat w div 256 mod 256),
      of_nat (unat w div 65536 mod 256), of_nat (unat w div 16777216 mod 256)]"

definition read_u32 :: "byte list \<Rightarrow> nat \<Rightarrow> u32 outcome" where
  "read_u32 buf off = obind (memread buf off 4) (\<lambda>bs. Done (u32_of_bytes bs))"

subsection \<open>vmd.h: error codes, magic number and record layouts\<close>

definition VMDLIB_E_INIT :: int where "VMDLIB_E_INIT = 0x0000"
definition VMDLIB_E_FH :: int where "VMDLIB_E_FH = 0x0001"
definition VMDLIB_E_FT :: int where "VMDLIB_E_FT = 0x0002"
definition VMDLIB_E_ME :: int where "VMDLIB_E_ME = 0x0003"
definition VMDLIB_E_IV :: int where "VMDLIB_E_IV = 0xffff"

text \<open>
  The string literal \<^verbatim>\<open>"Vocaloid Motion Data 0002\0\0\0\0"\<close>: 25 characters, four
  written null bytes and the terminating null of the literal, 30 bytes in all.
\<close>

definition VMDLIB_MAGIC :: "byte list" where
  "VMDLIB_MAGIC = map (\<lambda>c. of_nat (of_char c)) ''Vocaloid Motion Data 0002'' @ replicate 5 0"

text \<open>
  Sizes of the packed structs, field by field. \<^verbatim>\<open>VMDHeader\<close> holds two \<^verbatim>\<open>char\<close>
  arrays and has no padding either.
\<close>

definition sizeof_VMDHeader :: nat where
  "sizeof_VMDHeader = 30 + 20"

definition sizeof_VMDBoneSingleFrame :: nat where
  "sizeof_VMDBoneSingleFrame = 15 + 4 + 7 * 4 + 64"

definition sizeof_VMDMorphSingleFrame :: nat where
  "sizeof_VMDMorphSingleFrame = 15 + 4 + 4"

definition sizeof_VMDCameraSingleFrame :: nat where
  "sizeof_VMDCameraSingleFrame = 4 + 7 * 4 + 24 + 4 + 1"

definition sizeof_VMDLightSingleFrame :: nat where
  "sizeof_VMDLightSingleFrame = 4 + 6 * 4"

definition sizeof_VMDShadowSingleFrame :: nat where
  "sizeof_VMDShadowSingleFrame = 4 + 1 + 4"

definition sizeof_VMDInfoIK :: nat where
  "sizeof_VMDInfoIK = 20 + 1"

definition sizeof_VMDIKSingleFrame :: nat where
  "sizeof_VMDIKSingleFrame = 4 + 1 + 4 + sizeof_VMDInfoIK"

text \<open>
  The \<^verbatim>\<open>frame\<close> field of each record type, read from the record's bytes: it follows
  the 15-byte name in a Bone and a Morph record and comes first in the other four.
\<close>

definition frame_at :: "nat \<Rightarrow> byte list \<Rightarrow> u32" where
  "frame_at off r = u32_of_bytes (drop off r)"

definition bone_frame :: "byte list \<Rightarrow> u32" where "bone_frame = frame_at 15"
definition morph_frame :: "byte list \<Rightarrow> u32" where "morph_frame = frame_at 15"
definition camera_frame :: "byte list \<Rightarrow> u32" where "camera_frame = frame_at 0"
definition light_frame :: "byte list \<Rightarrow> u32" where "light_frame = frame_at 0"
definition shadow_frame :: "byte list \<Rightarrow> u32" where "shadow_frame = frame_at 0"
definition ik_frame :: "byte list \<Rightarrow> u32" where "ik_frame = frame_at 0"

text \<open>
  \<^verbatim>\<open>VMDHeader\<close>; its field \<^verbatim>\<open>header\<close> is called \<open>magic\<close> here, the name
  \<open>header\<close> being taken by the field of \<^verbatim>\<open>VMDFile\<close>. In C the two arrays have 30
  and 20 bytes; every header that \<^verbatim>\<open>VMDLoadFromFile\<close> builds has these lengths.
\<close>

record VMDHeader =
  magic :: "byte list"
  model_name :: "byte list"

text \<open>
  \<^verbatim>\<open>VMDBoneFrames\<close> to \<^verbatim>\<open>VMDIKFrames\<close>: six structs of one shape, a count and a
  pointer to the records. The pointer is \<open>None\<close> when null, and otherwise holds the
  bytes of the block that \<^verbatim>\<open>malloc\<close> returned.
\<close>

record VMDFrames =
  num_frames :: u32
  frames :: "byte list option"

record VMDFile =
  header :: VMDHeader
  bone_frames :: VMDFrames
  morph_frames :: VMDFrames
  camera_frames :: VMDFrames
  light_frames :: VMDFrames
  shadow_frames :: VMDFrames
  ik_frames :: VMDFrames

text \<open>\<^verbatim>\<open>VMDStructType\<close>: a C enum, so an \<^verbatim>\<open>int\<close> that can hold other values too.\<close>

definition VMDL_BONE :: int where "VMDL_BONE = 0"
definition VMDL_MORPH :: int where "VMDL_MORPH = 1"
definition VMDL_CAMERA :: int where "VMDL_CAMERA = 2"
definition VMDL_LIGHT :: int where "VMDL_LIGHT = 3"
definition VMDL_SHADOW :: int where "VMDL_SHADOW = 4"
definition VMDL_IK :: int where "VMDL_IK = 5"

subsection \<open>vmd.c: header check and comparison functions\<close>

text \<open>
  \<^verbatim>\<open>__VMDCheckHeader\<close>: \<^verbatim>\<open>memcmp\<close> of the magic with the first 30 bytes of the
  data. \<^verbatim>\<open>memcmp\<close> is given the length 30 whatever the data holds, so data of fewer
  than 30 bytes is read past its end.
\<close>

definition VMDCheckHeader :: "byte list \<Rightarrow> bool outcome" where
  "VMDCheckHeader data = obind (memread data 0 30) (\<lambda>h. Done (h = VMDLIB_MAGIC))"

text \<open>
  \<^verbatim>\<open>__VMDCompareBoneFrameNumber\<close> and its five siblings return
  \<^verbatim>\<open>a->frame - b->frame\<close>: a subtraction of two \<^verbatim>\<open>uint32_t\<close>, which wraps, converted
  to the \<^verbatim>\<open>int\<close> result, which reads the 32 bits as two's complement.
\<close>

definition VMDCompareBoneFrameNumber :: "byte list \<Rightarrow> byte list \<Rightarrow> int" where
  "VMDCompareBoneFrameNumber a b = sint (bone_frame a - bone_frame b)"

definition VMDCompareMorphFrameNumber :: "byte list \<Rightarrow> byte list \<Rightarrow> int" where
  "VMDCompareMorphFrameNumber a b = sint (morph_frame a - morph_frame b)"

definition VMDCompareCameraFrameNumber :: "byte list \<Rightarrow> byte list \<Rightarrow> int" where
  "VMDCompareCameraFrameNumber a b = sint (camera_frame a - camera_frame b)"

definition VMDCompareLightFrameNumber :: "byte list \<Rightarrow> byte list \<Rightarrow> int" where
  "VMDCompareLightFrameNumber a b = sint (light_frame a - light_frame b)"

definition VMDCompareShadowFrameNumber :: "byte list \<Rightarrow> byte list \<Rightarrow> int" where
  "VMDCompareShadowFrameNumber a b = sint (shadow_frame a - shadow_frame b)"

definition VMDCompareIKFrameNumber :: "byte list \<Rightarrow> byte list \<Rightarrow> int" where
  "VMDCompareIKFrameNumber a b = sint (ik_frame a - ik_frame b)"

subsection \<open>The C library's qsort\<close>

text \<open>
  \<^verbatim>\<open>qsort\<close> belongs to the C library, not to this repository, so it is a parameter
  \<open>qs\<close> of the model: a function that takes the comparison function and the array's
  elements and returns them rearranged. What ISO C (7.22.5) promises of it is the
  predicate \<open>qsort_conforms\<close>: when the comparison function orders the elements of the
  array consistently (a total preorder by the sign of its result), the result holds the
  same elements, in ascending order. The order of elements that compare equal is left
  open, and nothing is promised for an inconsistent comparison function.
\<close>

type_synonym compar = "byte list \<Rightarrow> byte list \<Rightarrow> int"
type_synonym qsort_fn = "compar \<Rightarrow> byte list list \<Rightarrow> byte list list"

definition cmp_consistent :: "compar \<Rightarrow> byte list set \<Rightarrow> bool" where
  "cmp_consistent cmp S \<longleftrightarrow>
     (\<forall>a\<in>S. \<forall>b\<in>S. (cmp a b < 0) = (0 < cmp b a)) \<and>
     (\<forall>a\<in>S. \<forall>b\<in>S. \<forall>c\<in>S. cmp a b \<le> 0 \<and> cmp b c \<le> 0 \<longrightarrow> cmp a c \<le> 0)"

definition qsort_conforms :: "qsort_fn \<Rightarrow> bool" where
  "qsort_conforms qs \<longleftrightarrow>
     (\<forall>cmp xs. cmp_consistent cmp (set xs) \<longrightarrow>
        mset (qs cmp xs) = mset xs \<and> sorted_wrt (\<lambda>a b. cmp a b \<le> 0) (qs cmp xs))"

text \<open>One conforming \<^verbatim>\<open>qsort\<close>, to run the model with: insertion sort.\<close>

fun qsort_insert :: "compar \<Rightarrow> byte list \<Rightarrow> byte list list \<Rightarrow> byte list list" where
  "qsort_insert cmp x [] = [x]"
| "qsort_insert cmp x (y # ys) =
     (if cmp x y \<le> 0 then x # y # ys else y # qsort_insert cmp x ys)"

definition qsort_ref :: qsort_fn where
  "qsort_ref cmp xs = foldr (qsort_insert cmp) xs []"

text \<open>An array of elements of \<open>n\<close> bytes each, as the list of its elements.\<close>

fun chop :: "nat \<Rightarrow> byte list \<Rightarrow> byte list list" where
  "chop n xs = (if n = 0 \<or> xs = [] then [] else take n xs # chop n (drop n xs))"

declare chop.simps [simp del]

text \<open>
  \<^verbatim>\<open>qsort(base, nmemb, size, compar)\<close> on a block of storage: the first
  \<open>nmemb * size\<close> bytes are the array, rearranged in place; bytes after it stay. ISO C
  requires \<^verbatim>\<open>base\<close> to point to an array of \<^verbatim>\<open>nmemb\<close> objects of \<^verbatim>\<open>size\<close> bytes
  and \<^verbatim>\<open>compar\<close> to point to a function; a call that breaks either is undefined.
\<close>

definition qsort :: "qsort_fn \<Rightarrow> byte list \<Rightarrow> nat \<Rightarrow> nat \<Rightarrow> compar option \<Rightarrow> byte list outcome" where
  "qsort qs base nmemb sz compar =
     (case compar of
        None \<Rightarrow> Fault NullCall
      | Some cmp \<Rightarrow>
          if length base < nmemb * sz then Fault ArrayOverrun
          else Done (concat (qs cmp (chop sz (take (nmemb * sz) base))) @ drop (nmemb * sz) base))"

subsection \<open>vmd.c: the global error code and the printed lines\<close>

text \<open>
  What the operations change outside their arguments: the global \<^verbatim>\<open>VMD_ERROR\<close>, and
  the lines they print, each line standing for one \<^verbatim>\<open>printf\<close> or \<^verbatim>\<open>fprintf\<close> call
  of the source (the \<^verbatim>\<open>DEBUG_PRINT\<close> calls print nothing unless \<^verbatim>\<open>DEBUG\<close> is
  defined). Every operation takes these globals and returns them.
\<close>

datatype message =
  NullPassed int \<comment> \<open>\<^verbatim>\<open>stderr\<close>: NULL was passed to VMDqsort, type was ...\<close>
| InvalidType int \<comment> \<open>\<^verbatim>\<open>stderr\<close>: VMDqsort : invalid type ...\<close>
| FileOpenError \<comment> \<open>\<^verbatim>\<open>stdout\<close>: File open error.\<close>
| InsufficientMemory \<comment> \<open>\<^verbatim>\<open>stdout\<close>: Insufficient memory.\<close>
| FileReadError \<comment> \<open>\<^verbatim>\<open>stderr\<close>: File read error\<close>
| NotVMDFile \<comment> \<open>\<^verbatim>\<open>stdout\<close>: The file is not VMD file!\<close>

record globals =
  VMD_ERROR :: int
  printed :: "message list"

definition say :: "message \<Rightarrow> globals \<Rightarrow> globals" where
  "say m g = g\<lparr>printed := printed g @ [m]\<rparr>"

subsection \<open>vmd.c: VMDqsort and VMDSortAllFrames\<close>

text \<open>
  \<^verbatim>\<open>VMDqsort\<close>: returns at once for null data; otherwise the \<^verbatim>\<open>switch\<close> picks the
  comparison function, \<^verbatim>\<open>funcp\<close> staying null in the \<^verbatim>\<open>default\<close> case, and
  \<^verbatim>\<open>qsort\<close> is called in every case.
\<close>

definition VMDqsort ::
  "qsort_fn \<Rightarrow> byte list option \<Rightarrow> nat \<Rightarrow> nat \<Rightarrow> int \<Rightarrow> globals
     \<Rightarrow> (byte list option \<times> globals) outcome" where
  "VMDqsort qs data num sz type g =
     (case data of
        None \<Rightarrow> Done (None, say (NullPassed type) g)
      | Some block \<Rightarrow>
          let (funcp, g) =
            (if type = VMDL_BONE then (Some VMDCompareBoneFrameNumber, g)
             else if type = VMDL_MORPH then (Some VMDCompareMorphFrameNumber, g)
             else if type = VMDL_CAMERA then (Some VMDCompareCameraFrameNumber, g)
             else if type = VMDL_LIGHT then (Some VMDCompareLightFrameNumber, g)
             else if type = VMDL_SHADOW then (Some VMDCompareShadowFrameNumber, g)
             else if type = VMDL_IK then (Some VMDCompareIKFrameNumber, g)
             else (None, say (InvalidType type) g))
          in obind (qsort qs block num sz funcp) (\<lambda>sorted. Done (Some sorted, g)))"

text \<open>
  \<^verbatim>\<open>VMDSortAllFrames\<close>: six calls in a row, each sorting one category's block in
  place. The element size is written as in the source: \<^verbatim>\<open>sizeof(VMDCameraSingleFrame)\<close>
  in the last four calls.
\<close>

definition VMDSortAllFrames ::
  "qsort_fn \<Rightarrow> VMDFile \<Rightarrow> globals \<Rightarrow> (VMDFile \<times> globals) outcome" where
  "VMDSortAllFrames qs vf g =
     obind (VMDqsort qs (frames (bone_frames vf)) (unat (num_frames (bone_frames vf)))
              sizeof_VMDBoneSingleFrame VMDL_BONE g) (\<lambda>(bone, g).
     obind (VMDqsort qs (frames (morph_frames vf)) (unat (num_frames (morph_frames vf)))
              sizeof_VMDMorphSingleFrame VMDL_MORPH g) (\<lambda>(morph, g).
     obind (VMDqsort qs (frames (camera_frames vf)) (unat (num_frames (camera_frames vf)))
              sizeof_VMDCameraSingleFrame VMDL_CAMERA g) (\<lambda>(camera, g).
     obind (VMDqsort qs (frames (light_frames vf)) (unat (num_frames (light_frames vf)))
              sizeof_VMDCameraSingleFrame VMDL_LIGHT g) (\<lambda>(light, g).
     obind (VMDqsort qs (frames (shadow_frames vf)) (unat (num_frames (shadow_frames vf)))
              sizeof_VMDCameraSingleFrame VMDL_SHADOW g) (\<lambda>(shadow, g).
     obind (VMDqsort qs (frames (ik_frames vf)) (unat (num_frames (ik_frames vf)))
              sizeof_VMDCameraSingleFrame VMDL_IK g) (\<lambda>(ik, g).
     Done (vf\<lparr>bone_frames := (bone_frames vf)\<lparr>frames := bone\<rparr>,
              morph_frames := (morph_frames vf)\<lparr>frames := morph\<rparr>,
              camera_frames := (camera_frames vf)\<lparr>frames := camera\<rparr>,
              light_frames := (light_frames vf)\<lparr>frames := light\<rparr>,
              shadow_frames := (shadow_frames vf)\<lparr>frames := shadow\<rparr>,
              ik_frames := (ik_frames vf)\<lparr>frames := ik\<rparr>\<rparr>, g)))))))"

subsection \<open>vmd.c: VMDLoadFromFile\<close>

text \<open>
  What the outside world answers during one call of \<^verbatim>\<open>VMDLoadFromFile\<close>: whether
  \<^verbatim>\<open>fopen\<close> returns null, the bytes of the file, whether reading them fails, and
  for each \<^verbatim>\<open>malloc\<close> call of the function whether it returns null. The file is a
  regular file whose size \<^verbatim>\<open>ftell\<close> reports. The buffer for the file is allocated
  with \<^verbatim>\<open>malloc(fsize + 1)\<close> and \<^verbatim>\<open>fread\<close> writes \<^verbatim>\<open>fsize\<close> bytes to it; the
  last byte of the buffer is never written, and \<open>uninit_byte\<close> is the value that it
  happens to hold.
\<close>

datatype alloc_site =
  A_content | A_vf | A_bone | A_morph | A_camera | A_light | A_shadow | A_ik

record env =
  fopen_null :: bool
  file_bytes :: "byte list"
  fread_error :: bool
  malloc_null :: "alloc_site \<Rightarrow> bool"
  uninit_byte :: byte

text \<open>
  The block of code that \<^verbatim>\<open>VMDLoadFromFile\<close> repeats for each category, with the
  record size and the \<^verbatim>\<open>malloc\<close> call as parameters. \<^verbatim>\<open>offset\<close> and \<^verbatim>\<open>cpy_size\<close>
  are \<^verbatim>\<open>uint32_t\<close>: the product of record size and count is cut to 32 bits when it is
  stored in \<^verbatim>\<open>cpy_size\<close>, and \<^verbatim>\<open>offset\<close> wraps. Returns the category and the new offset.
\<close>

definition load_frames ::
  "env \<Rightarrow> alloc_site \<Rightarrow> nat \<Rightarrow> byte list \<Rightarrow> u32 \<Rightarrow> (VMDFrames \<times> u32) outcome" where
  "load_frames e site sz content offset =
     obind (read_u32 content (unat offset)) (\<lambda>n.
       let offset = offset + 4 in
       if n \<noteq> 0 then
         let cpy_size = (of_nat sz :: u32) * n in
         if malloc_null e site then Fault NullWrite
         else obind (memread content (unat offset) (unat cpy_size)) (\<lambda>block.
           Done (\<lparr>num_frames = n, frames = Some block\<rparr>, offset + cpy_size))
       else Done (\<lparr>num_frames = n, frames = None\<rparr>, offset))"

text \<open>
  \<^verbatim>\<open>VMDLoadFromFile\<close>. The buffer \<^verbatim>\<open>content\<close> has \<^verbatim>\<open>fsize + 1\<close> bytes: the
  \<^verbatim>\<open>fsize\<close> bytes of the file, which \<^verbatim>\<open>fread\<close> fills in, and the byte after them,
  which stays as \<^verbatim>\<open>malloc\<close> left it. A read of that last byte is inside the buffer;
  a read beyond it is not. \<^verbatim>\<open>fread(content, fsize, 1, fp)\<close> returns 0 when the read
  fails and also when \<^verbatim>\<open>fsize\<close> is 0. The results of the \<^verbatim>\<open>malloc\<close> calls for the
  \<^verbatim>\<open>VMDFile\<close> and for the records are used unchecked.
\<close>

definition VMDLoadFromFile ::
  "env \<Rightarrow> globals \<Rightarrow> (VMDFile option \<times> globals) outcome" where
  "VMDLoadFromFile e g =
     (if fopen_null e then Done (None, (say FileOpenError g)\<lparr>VMD_ERROR := VMDLIB_E_FH\<rparr>)
      else
        let fsize = length (file_bytes e); content = file_bytes e @ [uninit_byte e] in
        if malloc_null e A_content
        then Done (None, (say InsufficientMemory g)\<lparr>VMD_ERROR := VMDLIB_E_ME\<rparr>)
        else if fsize = 0 \<or> fread_error e then Done (None, say FileReadError g)
        else obind (VMDCheckHeader content) (\<lambda>ok.
          if ok = False then Done (None, (say NotVMDFile g)\<lparr>VMD_ERROR := VMDLIB_E_FT\<rparr>)
          else if malloc_null e A_vf then Fault NullWrite
          else
            obind (memread content 0 sizeof_VMDHeader) (\<lambda>h.
            obind (load_frames e A_bone sizeof_VMDBoneSingleFrame content
                     (of_nat sizeof_VMDHeader)) (\<lambda>(bone, offset).
            obind (load_frames e A_morph sizeof_VMDMorphSingleFrame content offset) (\<lambda>(morph, offset).
            obind (load_frames e A_camera sizeof_VMDCameraSingleFrame content offset) (\<lambda>(camera, offset).
            obind (load_frames e A_light sizeof_VMDLightSingleFrame content offset) (\<lambda>(light, offset).
            obind (load_frames e A_shadow sizeof_VMDShadowSingleFrame content offset) (\<lambda>(shadow, offset).
            obind (load_frames e A_ik sizeof_VMDIKSingleFrame content offset) (\<lambda>(ik, offset).
            Done (Some \<lparr>header = \<lparr>magic = take 30 h, model_name = drop 30 h\<rparr>,
                        bone_frames = bone, morph_frames = morph, camera_frames = camera,
                        light_frames = light, shadow_frames = shadow, ik_frames = ik\<rparr>,
                  g))))))))))"

subsection \<open>vmd.c: VMDWriteToFile\<close>

text \<open>
  One category as \<^verbatim>\<open>VMDWriteToFile\<close> writes it: the count, then, unless the pointer
  is null, \<^verbatim>\<open>num_frames\<close> elements of the record size read from the block. Here the
  product is formed by \<^verbatim>\<open>fwrite\<close> in \<^verbatim>\<open>size_t\<close>, of 64 bits, and is not cut to 32
  bits.
\<close>

definition write_frames :: "nat \<Rightarrow> VMDFrames \<Rightarrow> byte list outcome" where
  "write_frames sz fr =
     (case frames fr of
        None \<Rightarrow> Done (bytes_of_u32 (num_frames fr))
      | Some block \<Rightarrow>
          obind (memread block 0 (sz * unat (num_frames fr))) (\<lambda>recs.
            Done (bytes_of_u32 (num_frames fr) @ recs)))"

text \<open>
  \<^verbatim>\<open>VMDWriteToFile\<close>: \<open>fopen_fails\<close> says whether \<^verbatim>\<open>fopen(fname, "wb")\<close> returns
  null. The result is the return value, the bytes of the file written (if it was
  opened) and the globals. The return values of \<^verbatim>\<open>fwrite\<close> are ignored by the
  source; the model takes every write to succeed.
\<close>

definition VMDWriteToFile ::
  "bool \<Rightarrow> VMDFile option \<Rightarrow> globals
     \<Rightarrow> (bool \<times> byte list option \<times> globals) outcome" where
  "VMDWriteToFile fopen_fails vf_ptr g =
     (case vf_ptr of
        None \<Rightarrow> Done (False, None, g\<lparr>VMD_ERROR := VMDLIB_E_IV\<rparr>)
      | Some vf \<Rightarrow>
          if fopen_fails then Done (False, None, g\<lparr>VMD_ERROR := VMDLIB_E_FH\<rparr>)
          else
            obind (write_frames sizeof_VMDBoneSingleFrame (bone_frames vf)) (\<lambda>bone.
            obind (write_frames sizeof_VMDMorphSingleFrame (morph_frames vf)) (\<lambda>morph.
            obind (write_frames sizeof_VMDCameraSingleFrame (camera_frames vf)) (\<lambda>camera.
            obind (write_frames sizeof_VMDLightSingleFrame (light_frames vf)) (\<lambda>light.
            obind (write_frames sizeof_VMDShadowSingleFrame (shadow_frames vf)) (\<lambda>shadow.
            obind (write_frames sizeof_VMDIKSingleFrame (ik_frames vf)) (\<lambda>ik.
            Done (True,
                  Some (magic (header vf) @ model_name (header vf)
                        @ bone @ morph @ camera @ light @ shadow @ ik),
                  g))))))))"

section \<open>File layout, well-formed documents and example data\<close>

subsection \<open>The layout of a file\<close>

text \<open>
  The layout that the comment at the head of \<^verbatim>\<open>vmd.h\<close> describes: the header, then
  for each category its count and its records. \<open>frames_image\<close> is one category on disk
  and \<open>file_image\<close> the whole file of a document.
\<close>

definition frames_image :: "VMDFrames \<Rightarrow> byte list" where
  "frames_image fr =
     bytes_of_u32 (num_frames fr) @ (case frames fr of None \<Rightarrow> [] | Some block \<Rightarrow> block)"

definition file_image :: "VMDFile \<Rightarrow> byte list" where
  "file_image vf =
     magic (header vf) @ model_name (header vf)
     @ frames_image (bone_frames vf) @ frames_image (morph_frames vf)
     @ frames_image (camera_frames vf) @ frames_image (light_frames vf)
     @ frames_image (shadow_frames vf) @ frames_image (ik_frames vf)"

text \<open>
  What \<^verbatim>\<open>VMDLoadFromFile\<close> leaves in a category: a null pointer for a zero count,
  and otherwise a block of \<^verbatim>\<open>cpy_size\<close> bytes, the 32-bit product of record size and
  count. A document is \<open>loaded\<close> when its header carries the magic and a 20-byte name
  and every category has this shape.
\<close>

definition loadable :: "nat \<Rightarrow> VMDFrames \<Rightarrow> bool" where
  "loadable sz fr =
     (case frames fr of
        None \<Rightarrow> num_frames fr = 0
      | Some block \<Rightarrow>
          num_frames fr \<noteq> 0 \<and> length block = unat ((of_nat sz :: u32) * num_frames fr))"

definition loaded :: "VMDFile \<Rightarrow> bool" where
  "loaded vf \<longleftrightarrow>
     magic (header vf) = VMDLIB_MAGIC \<and> length (model_name (header vf)) = 20 \<and>
     loadable sizeof_VMDBoneSingleFrame (bone_frames vf) \<and>
     loadable sizeof_VMDMorphSingleFrame (morph_frames vf) \<and>
     loadable sizeof_VMDCameraSingleFrame (camera_frames vf) \<and>
     loadable sizeof_VMDLightSingleFrame (light_frames vf) \<and>
     loadable sizeof_VMDShadowSingleFrame (shadow_frames vf) \<and>
     loadable sizeof_VMDIKSingleFrame (ik_frames vf)"

text \<open>
  The bytes that the counts of a document declare: 4 for each count and the record size
  for each record, without any cut to 32 bits.
\<close>

definition declared_bytes :: "nat \<Rightarrow> VMDFrames \<Rightarrow> nat" where
  "declared_bytes sz fr = 4 + sz * unat (num_frames fr)"

definition declared_size :: "VMDFile \<Rightarrow> nat" where
  "declared_size vf =
     sizeof_VMDHeader
     + declared_bytes sizeof_VMDBoneSingleFrame (bone_frames vf)
     + declared_bytes sizeof_VMDMorphSingleFrame (morph_frames vf)
     + declared_bytes sizeof_VMDCameraSingleFrame (camera_frames vf)
     + declared_bytes sizeof_VMDLightSingleFrame (light_frames vf)
     + declared_bytes sizeof_VMDShadowSingleFrame (shadow_frames vf)
     + declared_bytes sizeof_VMDIKSingleFrame (ik_frames vf)"


text \<open>
  Truncated files. \<open>cut_in_records vf k\<close> says that the first \<open>k\<close> bytes of the file
  of \<open>vf\<close> end inside the records of a category: they hold the whole count of some
  category and not all of the records that follow it. \<open>ends_in_records\<close> goes through
  the categories with the offset at which each one starts. \<open>with_last_byte s vf\<close> is
  \<open>vf\<close> with the last byte of its ShowIK records replaced by \<open>s\<close>.
\<close>

definition category_images :: "VMDFile \<Rightarrow> byte list list" where
  "category_images vf =
     [frames_image (bone_frames vf), frames_image (morph_frames vf),
      frames_image (camera_frames vf), frames_image (light_frames vf),
      frames_image (shadow_frames vf), frames_image (ik_frames vf)]"

fun ends_in_records :: "nat \<Rightarrow> byte list list \<Rightarrow> nat \<Rightarrow> bool" where
  "ends_in_records off [] k = False"
| "ends_in_records off (img # imgs) k =
     ((off + 4 \<le> k \<and> k < off + length img) \<or> ends_in_records (off + length img) imgs k)"

definition cut_in_records :: "VMDFile \<Rightarrow> nat \<Rightarrow> bool" where
  "cut_in_records vf k = ends_in_records sizeof_VMDHeader (category_images vf) k"

definition with_last_byte :: "byte \<Rightarrow> VMDFile \<Rightarrow> VMDFile" where
  "with_last_byte s vf =
     vf\<lparr>ik_frames := (ik_frames vf)
          \<lparr>frames := map_option (\<lambda>block. butlast block @ [s]) (frames (ik_frames vf))\<rparr>\<rparr>"

text \<open>
  The six blocks of \<^verbatim>\<open>VMDLoadFromFile\<close> as one loop over the categories, each given
  by its \<^verbatim>\<open>malloc\<close> call and its record size; the lemma \<open>load_chain\<close> below shows
  that the six blocks of the function are this loop.
\<close>

fun load_all :: "env \<Rightarrow> (alloc_site \<times> nat) list \<Rightarrow> byte list \<Rightarrow> u32 \<Rightarrow> VMDFrames list outcome" where
  "load_all e [] content offset = Done []"
| "load_all e ((site, sz) # cs) content offset =
     obind (load_frames e site sz content offset) (\<lambda>(fr, offset).
       obind (load_all e cs content offset) (\<lambda>frs. Done (fr # frs)))"

definition categories :: "(alloc_site \<times> nat) list" where
  "categories =
     [(A_bone, sizeof_VMDBoneSingleFrame), (A_morph, sizeof_VMDMorphSingleFrame),
      (A_camera, sizeof_VMDCameraSingleFrame), (A_light, sizeof_VMDLightSingleFrame),
      (A_shadow, sizeof_VMDShadowSingleFrame), (A_ik, sizeof_VMDIKSingleFrame)]"

text \<open>
  An environment in which nothing fails: the file opens, is read, and every
  \<^verbatim>\<open>malloc\<close> succeeds. \<open>plain_file\<close> is such an environment for given bytes, with
  a null byte in the last place of the buffer.
\<close>

definition readable :: "env \<Rightarrow> bool" where
  "readable e \<longleftrightarrow>
     fopen_null e = False \<and> fread_error e = False \<and>
     malloc_null e A_content = False \<and> malloc_null e A_vf = False \<and>
     malloc_null e A_bone = False \<and> malloc_null e A_morph = False \<and>
     malloc_null e A_camera = False \<and> malloc_null e A_light = False \<and>
     malloc_null e A_shadow = False \<and> malloc_null e A_ik = False"

definition plain_file :: "byte list \<Rightarrow> env" where
  "plain_file bs =
     \<lparr>fopen_null = False, file_bytes = bs, fread_error = False,
      malloc_null = (\<lambda>site. False), uninit_byte = 0\<rparr>"

subsection \<open>Categories by selector\<close>

text \<open>
  The six values of \<^verbatim>\<open>VMDStructType\<close>, and for each the size of its record and its
  \<^verbatim>\<open>frame\<close> field. \<open>frame_compare f\<close> is the comparison function that every
  \<^verbatim>\<open>__VMDCompare...FrameNumber\<close> is for its own field \<open>f\<close>. In \<open>close_frames\<close> any two
  frame numbers of the records are less than \<open>2^31\<close> apart.
\<close>

definition recognized :: "int \<Rightarrow> bool" where
  "recognized t \<longleftrightarrow>
     t \<in> {VMDL_BONE, VMDL_MORPH, VMDL_CAMERA, VMDL_LIGHT, VMDL_SHADOW, VMDL_IK}"

definition sizeof_record :: "int \<Rightarrow> nat" where
  "sizeof_record t =
     (if t = VMDL_BONE then sizeof_VMDBoneSingleFrame
      else if t = VMDL_MORPH then sizeof_VMDMorphSingleFrame
      else if t = VMDL_CAMERA then sizeof_VMDCameraSingleFrame
      else if t = VMDL_LIGHT then sizeof_VMDLightSingleFrame
      else if t = VMDL_SHADOW then sizeof_VMDShadowSingleFrame
      else sizeof_VMDIKSingleFrame)"

definition frame_of :: "int \<Rightarrow> byte list \<Rightarrow> u32" where
  "frame_of t =
     (if t = VMDL_BONE then bone_frame
      else if t = VMDL_MORPH then morph_frame
      else if t = VMDL_CAMERA then camera_frame
      else if t = VMDL_LIGHT then light_frame
      else if t = VMDL_SHADOW then shadow_frame
      else ik_frame)"

definition frame_compare :: "(byte list \<Rightarrow> u32) \<Rightarrow> compar" where
  "frame_compare f a b = sint (f a - f b)"

definition close_frames :: "(byte list \<Rightarrow> u32) \<Rightarrow> byte list list \<Rightarrow> bool" where
  "close_frames f recs \<longleftrightarrow>
     (\<forall>a\<in>set recs. \<forall>b\<in>set recs. \<bar>uint (f a) - uint (f b)\<bar> < 2147483648)"

subsection \<open>Example data\<close>

text \<open>
  The globals as \<^verbatim>\<open>example.c\<close> sets them before its first call, records with a given
  frame number and all other bytes fixed, a document without any records, and the
  documents and files that the examples below run on.
\<close>

definition initial :: globals where
  "initial = \<lparr>VMD_ERROR = VMDLIB_E_INIT, printed = []\<rparr>"

definition no_frames :: VMDFrames where
  "no_frames = \<lparr>num_frames = 0, frames = None\<rparr>"

definition empty_doc :: "byte list \<Rightarrow> VMDFile" where
  "empty_doc nm =
     \<lparr>header = \<lparr>magic = VMDLIB_MAGIC, model_name = nm\<rparr>,
      bone_frames = no_frames, morph_frames = no_frames, camera_frames = no_frames,
      light_frames = no_frames, shadow_frames = no_frames, ik_frames = no_frames\<rparr>"

definition bone_record :: "u32 \<Rightarrow> byte list" where
  "bone_record f = replicate 15 0 @ bytes_of_u32 f @ replicate 92 0"

definition morph_record :: "u32 \<Rightarrow> byte list" where
  "morph_record f = replicate 15 0 @ bytes_of_u32 f @ replicate 4 0"

definition light_record :: "u32 \<Rightarrow> byte list" where
  "light_record f = bytes_of_u32 f @ replicate 24 0"

definition shadow_record :: "u32 \<Rightarrow> byte list" where
  "shadow_record f = bytes_of_u32 f @ replicate 5 0"

definition ik_record :: "u32 \<Rightarrow> u32 \<Rightarrow> byte list" where
  "ik_record f ik_count = bytes_of_u32 f @ [1] @ bytes_of_u32 ik_count @ replicate 21 0"

definition one_shadow_doc :: VMDFile where
  "one_shadow_doc =
     (empty_doc (replicate 20 0))
       \<lparr>shadow_frames := \<lparr>num_frames = 1, frames = Some (shadow_record 7)\<rparr>\<rparr>"

definition wrapped_light_doc :: VMDFile where
  "wrapped_light_doc =
     (empty_doc (replicate 20 0))
       \<lparr>light_frames := \<lparr>num_frames = 0x80000001, frames = Some (light_record 0)\<rparr>\<rparr>"

definition wrapped_light_file :: "byte list" where
  "wrapped_light_file =
     VMDLIB_MAGIC @ replicate 20 0 @ [0, 0, 0, 0] @ [0, 0, 0, 0] @ [0, 0, 0, 0]
     @ [0x01, 0, 0, 0x80] @ light_record 0 @ [0, 0, 0, 0] @ [0, 0, 0, 0]"

definition ten_bones_doc :: VMDFile where
  "ten_bones_doc =
     (empty_doc (replicate 20 0))
       \<lparr>bone_frames := \<lparr>num_frames = 10, frames = Some (concat (replicate 10 (bone_record 0)))\<rparr>\<rparr>"

definition truncated_bone_file :: "byte list" where
  "truncated_bone_file = VMDLIB_MAGIC @ replicate 20 0 @ [10, 0, 0, 0] @ bone_record 0"

definition two_lights_doc :: VMDFile where
  "two_lights_doc =
     (empty_doc (replicate 20 0))
       \<lparr>light_frames := \<lparr>num_frames = 2, frames = Some (light_record 2 @ light_record 1)\<rparr>\<rparr>"

definition sort_example :: "byte list list" where
  "sort_example = [shadow_record 5, shadow_record 1, shadow_record 3, shadow_record 1]"

definition two_ik_records :: "byte list list" where
  "two_ik_records = [ik_record 3 0, ik_record 9 7]"

definition shadow_ik_doc :: VMDFile where
  "shadow_ik_doc =
     (empty_doc (replicate 20 0))
       \<lparr>shadow_frames := \<lparr>num_frames = 1, frames = Some (shadow_record 7)\<rparr>,
        ik_frames := \<lparr>num_frames = 2, frames = Some (concat two_ik_records)\<rparr>\<rparr>"



section \<open>Lemmas\<close>

subsection \<open>Words, bytes and buffers\<close>

lemmas VMDL_defs =
  VMDL_BONE_def VMDL_MORPH_def VMDL_CAMERA_def VMDL_LIGHT_def VMDL_SHADOW_def VMDL_IK_def

lemmas sizeof_defs =
  sizeof_VMDHeader_def sizeof_VMDBoneSingleFrame_def sizeof_VMDMorphSingleFrame_def
  sizeof_VMDCameraSingleFrame_def sizeof_VMDLightSingleFrame_def
  sizeof_VMDShadowSingleFrame_def sizeof_VMDIKSingleFrame_def sizeof_VMDInfoIK_def

lemmas compare_defs =
  VMDCompareBoneFrameNumber_def VMDCompareMorphFrameNumber_def
  VMDCompareCameraFrameNumber_def VMDCompareLightFrameNumber_def
  VMDCompareShadowFrameNumber_def VMDCompareIKFrameNumber_def

lemma split4:
  assumes "(x::nat) < 4294967296"
  shows "x mod 256 + 256 * (x div 256 mod 256) + 65536 * (x div 65536 mod 256)
           + 16777216 * (x div 16777216 mod 256) = x"
proof -
  have q2: "x div 65536 = x div 256 div 256"
    using div_mult2_eq [of x 256 256] by simp
  have q3: "x div 16777216 = x div 65536 div 256"
    using div_mult2_eq [of x 65536 256] by simp
  have small: "x div 16777216 < 256"
    using assms by (simp add: less_mult_imp_div_less)
  have a: "x = x mod 256 + 256 * (x div 256)" by simp
  have b: "x div 256 = x div 256 mod 256 + 256 * (x div 65536)"
    unfolding q2 by simp
  have c: "x div 65536 = x div 65536 mod 256 + 256 * (x div 16777216)"
    unfolding q3 by simp
  have d: "x div 16777216 mod 256 = x div 16777216"
    using small by simp
  show ?thesis using a b c d by linarith
qed

lemma unat_u32_less: "unat (w :: u32) < 4294967296"
  using unsigned_less [of w, where 'a = nat] by simp

lemma unat_of_nat_u32: "k < 4294967296 \<Longrightarrow> unat (of_nat k :: u32) = k"
  by (simp add: unat_of_nat)

lemma u32_of_bytes_of_u32: "u32_of_bytes (bytes_of_u32 w) = w"
  by (simp add: bytes_of_u32_def unat_of_nat split4 unat_u32_less)

lemma u32_of_bytes_prefix: "u32_of_bytes (bytes_of_u32 w @ rest) = w"
  using u32_of_bytes_of_u32 [of w] by (simp add: bytes_of_u32_def)

lemma length_bytes_of_u32: "length (bytes_of_u32 w) = 4"
  by (simp add: bytes_of_u32_def)

lemma bytes_zero: "bytes_of_u32 0 = [0, 0, 0, 0]"
  by (simp add: bytes_of_u32_def)

lemma unat_cpy_size:
  assumes "sz * unat n < 4294967296"
  shows "unat ((of_nat sz :: u32) * n) = sz * unat n"
proof -
  have "(of_nat sz :: u32) * n = of_nat sz * of_nat (unat n)" by simp
  also have "\<dots> = of_nat (sz * unat n)" by (simp only: of_nat_mult)
  finally show ?thesis using assms by (simp only: unat_of_nat_u32)
qed

lemma sint_diff:
  assumes "\<bar>uint a - uint b\<bar> < 2147483648"
  shows "sint ((a::u32) - b) = uint a - uint b"
proof -
  have "a - b = word_of_int (uint a - uint b)" by simp
  then have "sint (a - b) = signed_take_bit (LENGTH(32) - 1) (uint a - uint b)"
    by (simp only: sint_sbintrunc')
  also have "\<dots> = uint a - uint b"
    by (rule signed_take_bit_int_eq_self) (use assms in simp_all)
  finally show ?thesis .
qed

lemma sint_diff_far:
  assumes "uint a + 2147483648 < uint (b::u32)"
  shows "0 < sint (a - b)" and "sint (b - a) < 0"
proof -
  define x y where "x = uint a" and "y = uint b"
  have x0: "0 \<le> x" by (simp add: x_def)
  have yb: "y < 4294967296" using uint_lt2p [of b] by (simp add: y_def)
  have far: "x + 2147483648 < y" using assms by (simp add: x_def y_def)
  have r1: "- (2 ^ (LENGTH(32) - 1)) \<le> x - y + 4294967296"
    and r2: "x - y + 4294967296 < 2 ^ (LENGTH(32) - 1)"
    and r3: "- (2 ^ (LENGTH(32) - 1)) \<le> y - x - 4294967296"
    and r4: "y - x - 4294967296 < 2 ^ (LENGTH(32) - 1)"
    using x0 yb far by simp_all
  have "a - b = word_of_int (x - y + 4294967296)" by (simp add: x_def y_def)
  then have "sint (a - b) = signed_take_bit (LENGTH(32) - 1) (x - y + 4294967296)"
    by (simp only: sint_sbintrunc')
  also have "\<dots> = x - y + 4294967296"
    by (rule signed_take_bit_int_eq_self [OF r1 r2])
  finally show "0 < sint (a - b)" using yb x0 by linarith
  have "b - a = word_of_int (y - x - 4294967296)" by (simp add: x_def y_def)
  then have "sint (b - a) = signed_take_bit (LENGTH(32) - 1) (y - x - 4294967296)"
    by (simp only: sint_sbintrunc')
  also have "\<dots> = y - x - 4294967296"
    by (rule signed_take_bit_int_eq_self [OF r3 r4])
  finally show "sint (b - a) < 0" using yb x0 by linarith
qed

lemma length_magic: "length VMDLIB_MAGIC = 30"
  by (simp add: VMDLIB_MAGIC_def)

lemma magic_last: "VMDLIB_MAGIC ! 29 = 0"
  by (simp add: VMDLIB_MAGIC_def nth_append)

lemma obind_split:
  "P (obind m k) = ((\<forall>f. m = Fault f \<longrightarrow> P (Fault f)) \<and> (\<forall>x. m = Done x \<longrightarrow> P (k x)))"
  by (cases m) auto

lemma obind_Done: "obind m k = Done y \<longleftrightarrow> (\<exists>x. m = Done x \<and> k x = Done y)"
  by (cases m) auto

lemma memread_Done:
  "memread buf off n = Done bs \<longleftrightarrow> off + n \<le> length buf \<and> bs = take n (drop off buf)"
  by (auto simp: memread_def)

lemma memread_append: "memread (pre @ xs @ post) (length pre) (length xs) = Done xs"
  by (simp add: memread_def)

lemma read_u32_append: "read_u32 (pre @ bytes_of_u32 n @ post) (length pre) = Done n"
  using memread_append [of pre "bytes_of_u32 n" post]
  by (simp add: read_u32_def length_bytes_of_u32 u32_of_bytes_of_u32)

lemma length_concat_fixed:
  assumes "\<forall>r\<in>set recs. length r = n"
  shows "length (concat recs) = length recs * n"
  using assms by (induction recs) auto

lemma length_concat_replicate: "length (concat (replicate n xs)) = n * length xs"
  by (induction n) auto

lemma chop_concat:
  assumes "\<forall>r\<in>set recs. length r = n" and "0 < n"
  shows "chop n (concat recs) = recs"
  using assms
proof (induction recs)
  case Nil
  then show ?case by (simp add: chop.simps)
next
  case (Cons r recs)
  then have "r \<noteq> []" by auto
  with Cons show ?case by (subst chop.simps) simp
qed

subsection \<open>Loading one category\<close>

lemma load_frames_zero:
  assumes "length pre + 4 < 4294967296"
  shows "load_frames e site sz (pre @ bytes_of_u32 0 @ post) (of_nat (length pre))
           = Done (\<lparr>num_frames = 0, frames = None\<rparr>, of_nat (length pre + 4))"
proof -
  have pre: "unat (of_nat (length pre) :: u32) = length pre"
    using assms by (simp add: unat_of_nat_u32)
  show ?thesis
    unfolding load_frames_def pre read_u32_append by simp
qed

lemma load_frames_records:
  assumes "n \<noteq> 0"
      and "length block = unat ((of_nat sz :: u32) * n)"
      and "malloc_null e site = False"
      and "length pre + 4 + length block < 4294967296"
  shows "load_frames e site sz (pre @ bytes_of_u32 n @ block @ post) (of_nat (length pre))
           = Done (\<lparr>num_frames = n, frames = Some block\<rparr>, of_nat (length pre + 4 + length block))"
proof -
  have pre: "unat (of_nat (length pre) :: u32) = length pre"
    using assms(4) by (simp add: unat_of_nat_u32)
  have pre4: "unat (of_nat (length pre) + 4 :: u32) = length (pre @ bytes_of_u32 n)"
    using assms(4) unat_of_nat_u32 [of "length pre + 4"] by (simp add: length_bytes_of_u32)
  have rd: "memread (pre @ bytes_of_u32 n @ block @ post) (length (pre @ bytes_of_u32 n)) (length block) = Done block"
    using memread_append [of "pre @ bytes_of_u32 n" block post] by simp
  have cpy: "(of_nat sz :: u32) * n = of_nat (length block)"
    by (simp add: assms(2))
  have len: "unat (of_nat (length block) :: u32) = length block"
    using assms(4) by (simp add: unat_of_nat_u32)
  show ?thesis
    unfolding load_frames_def pre read_u32_append
    using assms(1,3) rd by (simp add: Let_def pre4 cpy len)
qed

lemma load_frames_image:
  assumes "loadable sz fr"
      and "malloc_null e site = False"
      and "length pre + length (frames_image fr) < 4294967296"
  shows "load_frames e site sz (pre @ frames_image fr @ post) (of_nat (length pre))
           = Done (fr, of_nat (length (pre @ frames_image fr)))"
proof (cases "frames fr")
  case None
  with assms(1) have n0: "num_frames fr = 0" by (simp add: loadable_def)
  have img: "frames_image fr = bytes_of_u32 0" using None n0 by (simp add: frames_image_def)
  have fr: "\<lparr>num_frames = 0, frames = None\<rparr> = fr" using None n0 by simp
  have "length pre + 4 < 4294967296"
    using assms(3) by (simp add: img length_bytes_of_u32)
  from load_frames_zero [OF this, of e site sz post] show ?thesis
    unfolding img fr by (simp add: length_bytes_of_u32)
next
  case (Some block)
  with assms(1) have n: "num_frames fr \<noteq> 0"
    and len: "length block = unat ((of_nat sz :: u32) * num_frames fr)"
    by (simp_all add: loadable_def)
  have img: "frames_image fr = bytes_of_u32 (num_frames fr) @ block"
    using Some by (simp add: frames_image_def)
  have fr: "\<lparr>num_frames = num_frames fr, frames = Some block\<rparr> = fr" using Some by simp
  have "length pre + 4 + length block < 4294967296"
    using assms(3) by (simp add: img length_bytes_of_u32)
  from load_frames_records [OF n len assms(2) this, of post] show ?thesis
    unfolding img fr by (simp add: length_bytes_of_u32)
qed

lemma load_frames_loadable:
  assumes "load_frames e site sz content off = Done (fr, off')"
  shows "loadable sz fr"
  using assms
  by (auto simp: load_frames_def obind_Done memread_Done loadable_def Let_def split: if_splits)

lemma load_frames_short:
  assumes ld: "loadable sz fr" and mal: "malloc_null e site = False"
      and small: "length pre + length (frames_image fr) < 4294967296"
      and k: "length pre + 4 \<le> k" "k + 1 < length pre + length (frames_image fr)"
  shows "load_frames e site sz (take k (pre @ frames_image fr @ post) @ [u]) (of_nat (length pre))
           = Fault ReadPastEnd"
proof -
  define j where "j = k - length pre - 4"
  obtain block where fr: "frames fr = Some block"
    using k by (cases "frames fr") (auto simp: frames_image_def length_bytes_of_u32)
  with ld have n: "num_frames fr \<noteq> 0"
    and len: "length block = unat ((of_nat sz :: u32) * num_frames fr)"
    by (simp_all add: loadable_def)
  have img: "frames_image fr = bytes_of_u32 (num_frames fr) @ block"
    using fr by (simp add: frames_image_def)
  have j: "j + 1 < length block"
    using k by (simp add: j_def img length_bytes_of_u32)
  have T: "take k (pre @ frames_image fr @ post) @ [u]
             = pre @ bytes_of_u32 (num_frames fr) @ (take j block @ [u])"
    using k j by (simp add: img length_bytes_of_u32 j_def)
  have pre: "unat (of_nat (length pre) :: u32) = length pre"
    using small by (simp add: unat_of_nat_u32)
  have rd: "read_u32 (pre @ bytes_of_u32 (num_frames fr) @ (take j block @ [u])) (length pre)
              = Done (num_frames fr)"
    by (rule read_u32_append)
  have pre4: "unat (of_nat (length pre) + 4 :: u32) = length pre + 4"
    using small unat_of_nat_u32 [of "length pre + 4"] by (simp add: img length_bytes_of_u32)
  have short: "memread (pre @ bytes_of_u32 (num_frames fr) @ (take j block @ [u])) (length pre + 4)
                 (length block) = Fault ReadPastEnd"
    using j by (simp add: memread_def length_bytes_of_u32)
  show ?thesis
    unfolding T load_frames_def pre rd
    using n mal short by (simp add: Let_def pre4 len [symmetric])
qed

lemma load_frames_at_end:
  assumes "length content < 4294967296"
  shows "load_frames e site sz content (of_nat (length content)) = Fault ReadPastEnd"
  using assms by (simp add: load_frames_def read_u32_def memread_def unat_of_nat_u32)

subsection \<open>Loading and writing a whole file\<close>

lemma VMDCheckHeader_magic: "VMDCheckHeader (VMDLIB_MAGIC @ rest) = Done True"
  using memread_append [of "[]" VMDLIB_MAGIC rest]
  by (simp add: VMDCheckHeader_def length_magic)

lemma load_content_image:
  assumes ld: "loaded vf" and rd: "readable e"
      and small: "length (file_image vf) < 4294967296"
      and bytes: "file_bytes e @ [uninit_byte e] = file_image vf @ rest"
      and ne: "file_bytes e \<noteq> []"
  shows "VMDLoadFromFile e g = Done (Some vf, g)"
proof -
  define H where "H = magic (header vf) @ model_name (header vf)"
  define B where "B = frames_image (bone_frames vf)"
  define M where "M = frames_image (morph_frames vf)"
  define C where "C = frames_image (camera_frames vf)"
  define L where "L = frames_image (light_frames vf)"
  define S where "S = frames_image (shadow_frames vf)"
  define I where "I = frames_image (ik_frames vf)"
  define content where "content = file_bytes e @ [uninit_byte e]"
  have content: "content = H @ B @ M @ C @ L @ S @ I @ rest"
    unfolding content_def bytes
    by (simp add: file_image_def H_def B_def M_def C_def L_def S_def I_def)
  have lenH: "length H = 50" and mg: "magic (header vf) = VMDLIB_MAGIC"
    using ld by (simp_all add: loaded_def H_def length_magic)
  have total: "length H + length B + length M + length C + length L + length S + length I < 4294967296"
    using small by (simp add: file_image_def H_def B_def M_def C_def L_def S_def I_def)
  define o0 :: u32 where "o0 = of_nat (length H)"
  define o1 :: u32 where "o1 = of_nat (length (H @ B))"
  define o2 :: u32 where "o2 = of_nat (length ((H @ B) @ M))"
  define o3 :: u32 where "o3 = of_nat (length (((H @ B) @ M) @ C))"
  define o4 :: u32 where "o4 = of_nat (length ((((H @ B) @ M) @ C) @ L))"
  define o5 :: u32 where "o5 = of_nat (length (((((H @ B) @ M) @ C) @ L) @ S))"
  define o6 :: u32 where "o6 = of_nat (length ((((((H @ B) @ M) @ C) @ L) @ S) @ I))"
  have s1: "load_frames e A_bone sizeof_VMDBoneSingleFrame content o0 = Done (bone_frames vf, o1)"
    using load_frames_image [of sizeof_VMDBoneSingleFrame "bone_frames vf" e A_bone H "M @ C @ L @ S @ I @ rest"]
      ld rd total
    by (simp add: loaded_def readable_def content o0_def o1_def B_def)
  have s2: "load_frames e A_morph sizeof_VMDMorphSingleFrame content o1 = Done (morph_frames vf, o2)"
    using load_frames_image [of sizeof_VMDMorphSingleFrame "morph_frames vf" e A_morph "H @ B" "C @ L @ S @ I @ rest"]
      ld rd total
    by (simp add: loaded_def readable_def content o1_def o2_def M_def)
  have s3: "load_frames e A_camera sizeof_VMDCameraSingleFrame content o2 = Done (camera_frames vf, o3)"
    using load_frames_image [of sizeof_VMDCameraSingleFrame "camera_frames vf"
            e A_camera "(H @ B) @ M" "L @ S @ I @ rest"]
      ld rd total
    by (simp add: loaded_def readable_def content o2_def o3_def C_def)
  have s4: "load_frames e A_light sizeof_VMDLightSingleFrame content o3 = Done (light_frames vf, o4)"
    using load_frames_image [of sizeof_VMDLightSingleFrame "light_frames vf"
            e A_light "((H @ B) @ M) @ C" "S @ I @ rest"]
      ld rd total
    by (simp add: loaded_def readable_def content o3_def o4_def L_def)
  have s5: "load_frames e A_shadow sizeof_VMDShadowSingleFrame content o4 = Done (shadow_frames vf, o5)"
    using load_frames_image [of sizeof_VMDShadowSingleFrame "shadow_frames vf"
            e A_shadow "(((H @ B) @ M) @ C) @ L" "I @ rest"]
      ld rd total
    by (simp add: loaded_def readable_def content o4_def o5_def S_def)
  have s6: "load_frames e A_ik sizeof_VMDIKSingleFrame content o5 = Done (ik_frames vf, o6)"
    using load_frames_image [of sizeof_VMDIKSingleFrame "ik_frames vf" e A_ik "((((H @ B) @ M) @ C) @ L) @ S" rest]
      ld rd total
    by (simp add: loaded_def readable_def content o5_def o6_def I_def)
  have chk: "VMDCheckHeader content = Done True"
    using VMDCheckHeader_magic [of "model_name (header vf) @ B @ M @ C @ L @ S @ I @ rest"]
    by (simp add: content H_def mg)
  have hd: "memread content 0 sizeof_VMDHeader = Done H"
    using memread_append [of "[]" H "B @ M @ C @ L @ S @ I @ rest"]
    by (simp add: content lenH sizeof_VMDHeader_def)
  have o0: "(of_nat sizeof_VMDHeader :: u32) = o0"
    by (simp add: o0_def lenH sizeof_VMDHeader_def)
  have hdr: "\<lparr>magic = take 30 H, model_name = drop 30 H\<rparr> = header vf"
    using ld by (simp add: H_def loaded_def length_magic)
  have vf: "\<lparr>header = header vf, bone_frames = bone_frames vf, morph_frames = morph_frames vf,
       camera_frames = camera_frames vf, light_frames = light_frames vf,
       shadow_frames = shadow_frames vf, ik_frames = ik_frames vf\<rparr> = vf"
    by simp
  show ?thesis
    unfolding VMDLoadFromFile_def content_def [symmetric] Let_def o0
    using rd ne by (simp add: readable_def chk hd s1 s2 s3 s4 s5 s6 hdr vf)
qed

lemma length_file_image: "loaded vf \<Longrightarrow> 74 \<le> length (file_image vf)"
  by (simp add: loaded_def file_image_def frames_image_def length_magic length_bytes_of_u32)

lemma load_file_image:
  assumes ld: "loaded vf" and rd: "readable e"
      and small: "length (file_image vf) < 4294967296"
      and bytes: "file_bytes e = file_image vf @ rest"
  shows "VMDLoadFromFile e g = Done (Some vf, g)"
proof -
  have "file_bytes e \<noteq> []"
    using length_file_image [OF ld] bytes by auto
  moreover have "file_bytes e @ [uninit_byte e] = file_image vf @ (rest @ [uninit_byte e])"
    by (simp add: bytes)
  ultimately show ?thesis
    using load_content_image [OF ld rd small] by blast
qed

lemma VMDLoadFromFile_Some:
  assumes "VMDLoadFromFile e g = Done (Some vf, g')"
  shows "loaded vf \<and> g' = g"
proof -
  define c where "c = file_bytes e @ [uninit_byte e]"
  from assms obtain h bone o1 morph o2 camera o3 light o4 shadow o5 ik o6 where
        chk: "VMDCheckHeader c = Done True"
    and hd: "memread c 0 sizeof_VMDHeader = Done h"
    and s1: "load_frames e A_bone sizeof_VMDBoneSingleFrame c (of_nat sizeof_VMDHeader) = Done (bone, o1)"
    and s2: "load_frames e A_morph sizeof_VMDMorphSingleFrame c o1 = Done (morph, o2)"
    and s3: "load_frames e A_camera sizeof_VMDCameraSingleFrame c o2 = Done (camera, o3)"
    and s4: "load_frames e A_light sizeof_VMDLightSingleFrame c o3 = Done (light, o4)"
    and s5: "load_frames e A_shadow sizeof_VMDShadowSingleFrame c o4 = Done (shadow, o5)"
    and s6: "load_frames e A_ik sizeof_VMDIKSingleFrame c o5 = Done (ik, o6)"
    and vf: "vf = \<lparr>header = \<lparr>magic = take 30 h, model_name = drop 30 h\<rparr>,
                        bone_frames = bone, morph_frames = morph, camera_frames = camera,
                        light_frames = light, shadow_frames = shadow, ik_frames = ik\<rparr>"
    and g: "g' = g"
    unfolding VMDLoadFromFile_def Let_def c_def [symmetric]
    by (auto simp: obind_Done split: if_splits)
  from chk have m: "take 30 c = VMDLIB_MAGIC"
    by (auto simp: VMDCheckHeader_def obind_Done memread_Done)
  from hd have h: "h = take 50 c" and len: "50 \<le> length c"
    by (auto simp: memread_Done sizeof_VMDHeader_def)
  have "take 30 h = VMDLIB_MAGIC" using m by (simp add: h)
  moreover have "length (drop 30 h) = 20" using len by (simp add: h)
  ultimately show ?thesis
    using s1 s2 s3 s4 s5 s6 g
    by (simp add: loaded_def vf load_frames_loadable)
qed

lemma write_frames_image:
  assumes "loadable sz fr" and "declared_bytes sz fr < 4294967296"
  shows "write_frames sz fr = Done (frames_image fr)"
    and "length (frames_image fr) = declared_bytes sz fr"
proof -
  have small: "sz * unat (num_frames fr) < 4294967296"
    using assms(2) by (simp add: declared_bytes_def)
  show "write_frames sz fr = Done (frames_image fr)"
  proof (cases "frames fr")
    case None
    then show ?thesis by (simp add: write_frames_def frames_image_def)
  next
    case (Some block)
    with assms(1) have "length block = sz * unat (num_frames fr)"
      by (simp add: loadable_def unat_cpy_size [OF small])
    then have "memread block 0 (sz * unat (num_frames fr)) = Done block"
      by (simp add: memread_def)
    then show ?thesis using Some by (simp add: write_frames_def frames_image_def)
  qed
  show "length (frames_image fr) = declared_bytes sz fr"
  proof (cases "frames fr")
    case None
    with assms(1) show ?thesis
      by (simp add: loadable_def frames_image_def declared_bytes_def length_bytes_of_u32)
  next
    case (Some block)
    with assms(1) show ?thesis
      by (simp add: loadable_def frames_image_def declared_bytes_def length_bytes_of_u32
          unat_cpy_size [OF small])
  qed
qed

lemma VMDWriteToFile_image:
  assumes ld: "loaded vf" and small: "declared_size vf < 4294967296"
  shows "VMDWriteToFile False (Some vf) g = Done (True, Some (file_image vf), g)"
    and "length (file_image vf) = declared_size vf"
proof -
  have b: "declared_bytes sizeof_VMDBoneSingleFrame (bone_frames vf) < 4294967296"
   and m: "declared_bytes sizeof_VMDMorphSingleFrame (morph_frames vf) < 4294967296"
   and c: "declared_bytes sizeof_VMDCameraSingleFrame (camera_frames vf) < 4294967296"
   and l: "declared_bytes sizeof_VMDLightSingleFrame (light_frames vf) < 4294967296"
   and s: "declared_bytes sizeof_VMDShadowSingleFrame (shadow_frames vf) < 4294967296"
   and i: "declared_bytes sizeof_VMDIKSingleFrame (ik_frames vf) < 4294967296"
    using small by (simp_all add: declared_size_def)
  note ld' = ld [unfolded loaded_def]
  show "VMDWriteToFile False (Some vf) g = Done (True, Some (file_image vf), g)"
    using ld'
    by (simp add: VMDWriteToFile_def file_image_def
        write_frames_image(1) [OF _ b] write_frames_image(1) [OF _ m]
        write_frames_image(1) [OF _ c] write_frames_image(1) [OF _ l]
        write_frames_image(1) [OF _ s] write_frames_image(1) [OF _ i])
  show "length (file_image vf) = declared_size vf"
    using ld'
    by (simp add: file_image_def declared_size_def length_magic sizeof_VMDHeader_def
        write_frames_image(2) [OF _ b] write_frames_image(2) [OF _ m]
        write_frames_image(2) [OF _ c] write_frames_image(2) [OF _ l]
        write_frames_image(2) [OF _ s] write_frames_image(2) [OF _ i])
qed


subsection \<open>Truncated files\<close>

lemma load_chain:
  "obind (load_frames e A_bone sizeof_VMDBoneSingleFrame content o0) (\<lambda>(bone, offset).
   obind (load_frames e A_morph sizeof_VMDMorphSingleFrame content offset) (\<lambda>(morph, offset).
   obind (load_frames e A_camera sizeof_VMDCameraSingleFrame content offset) (\<lambda>(camera, offset).
   obind (load_frames e A_light sizeof_VMDLightSingleFrame content offset) (\<lambda>(light, offset).
   obind (load_frames e A_shadow sizeof_VMDShadowSingleFrame content offset) (\<lambda>(shadow, offset).
   obind (load_frames e A_ik sizeof_VMDIKSingleFrame content offset) (\<lambda>(ik, offset).
   Done (Some \<lparr>header = hdr, bone_frames = bone, morph_frames = morph, camera_frames = camera,
                light_frames = light, shadow_frames = shadow, ik_frames = ik\<rparr>, g)))))))
   = obind (load_all e categories content o0) (\<lambda>frs.
       Done (Some \<lparr>header = hdr, bone_frames = frs ! 0, morph_frames = frs ! 1,
                    camera_frames = frs ! 2, light_frames = frs ! 3,
                    shadow_frames = frs ! 4, ik_frames = frs ! 5\<rparr>, g))"
  unfolding categories_def
  by (simp split: obind_split prod.split)

lemma load_all_Fault:
  assumes "fopen_null e = False" and "malloc_null e A_content = False"
      and "fread_error e = False" and "malloc_null e A_vf = False"
      and "file_bytes e \<noteq> []"
      and "VMDCheckHeader (file_bytes e @ [uninit_byte e]) = Done True"
      and "memread (file_bytes e @ [uninit_byte e]) 0 sizeof_VMDHeader = Done h"
      and "load_all e categories (file_bytes e @ [uninit_byte e]) (of_nat sizeof_VMDHeader) = Fault f"
  shows "VMDLoadFromFile e g = Fault f"
  unfolding VMDLoadFromFile_def Let_def
  using assms by (simp add: load_chain)

lemma ends_in_records_lower: "ends_in_records off imgs k \<Longrightarrow> off + 4 \<le> k"
  by (induction off imgs k rule: ends_in_records.induct) auto

lemma load_all_truncated:
  fixes cats :: "(alloc_site \<times> nat \<times> VMDFrames) list"
  assumes ok: "\<forall>(site, sz, fr)\<in>set cats. malloc_null e site = False \<and> loadable sz fr"
      and small: "length pre + length (concat (map (\<lambda>(site, sz, fr). frames_image fr) cats)) < 4294967296"
      and cut: "ends_in_records (length pre) (map (\<lambda>(site, sz, fr). frames_image fr) cats) k"
      and short: "k + 1 < length pre + length (concat (map (\<lambda>(site, sz, fr). frames_image fr) cats))"
  shows "load_all e (map (\<lambda>(site, sz, fr). (site, sz)) cats)
           (take k (pre @ concat (map (\<lambda>(site, sz, fr). frames_image fr) cats)) @ [u])
           (of_nat (length pre)) = Fault ReadPastEnd"
  using assms
proof (induction cats arbitrary: pre)
  case Nil
  then show ?case by simp
next
  case (Cons c cats)
  obtain site sz fr where c: "c = (site, sz, fr)" by (cases c) auto
  let ?img = "\<lambda>(site, sz, fr). frames_image fr"
  define rest where "rest = concat (map ?img cats)"
  have mal: "malloc_null e site = False" and ld: "loadable sz fr"
    using Cons.prems(1) by (simp_all add: c)
  have small1: "length pre + length (frames_image fr) < 4294967296"
    using Cons.prems(2) by (simp add: c)
  have total: "length pre + length (frames_image fr) + length rest < 4294967296"
    using Cons.prems(2) by (simp add: c rest_def)
  have short: "k + 1 < length pre + length (frames_image fr) + length rest"
    using Cons.prems(4) by (simp add: c rest_def)
  define content where "content = take k (pre @ frames_image fr @ rest) @ [u]"
  have goal: "load_all e (map (\<lambda>(site, sz, fr). (site, sz)) (c # cats))
           (take k (pre @ concat (map ?img (c # cats))) @ [u]) (of_nat (length pre))
         = obind (load_frames e site sz content (of_nat (length pre))) (\<lambda>(fr, offset).
             obind (load_all e (map (\<lambda>(site, sz, fr). (site, sz)) cats) content offset)
               (\<lambda>frs. Done (fr # frs)))"
    by (simp add: c content_def rest_def)
  from Cons.prems(3) consider
      (here) "length pre + 4 \<le> k" "k < length pre + length (frames_image fr)"
    | (later) "ends_in_records (length pre + length (frames_image fr)) (map ?img cats) k"
    by (auto simp: c)
  then have "obind (load_frames e site sz content (of_nat (length pre))) (\<lambda>(fr, offset).
             obind (load_all e (map (\<lambda>(site, sz, fr). (site, sz)) cats) content offset)
               (\<lambda>frs. Done (fr # frs))) = Fault ReadPastEnd"
  proof cases
    case here
    show ?thesis
    proof (cases "k + 1 < length pre + length (frames_image fr)")
      case True
      have "load_frames e site sz content (of_nat (length pre)) = Fault ReadPastEnd"
        unfolding content_def by (rule load_frames_short [OF ld mal small1 here(1) True])
      then show ?thesis by simp
    next
      case False
      with here have k: "k + 1 = length pre + length (frames_image fr)" by simp
      obtain block where fr: "frames fr = Some block"
        using here by (cases "frames fr") (auto simp: frames_image_def length_bytes_of_u32)
      with ld have n: "num_frames fr \<noteq> 0"
        and len: "length block = unat ((of_nat sz :: u32) * num_frames fr)"
        by (simp_all add: loadable_def)
      have img: "frames_image fr = bytes_of_u32 (num_frames fr) @ block"
        using fr by (simp add: frames_image_def)
      have bl: "block \<noteq> []" "k = length pre + 4 + (length block - 1)"
        using here k by (auto simp: img length_bytes_of_u32)
      define block' where "block' = butlast block @ [u]"
      have "length block' = length block"
        using bl(1) by (simp add: block'_def)
      with len have len': "length block' = unat ((of_nat sz :: u32) * num_frames fr)"
        by (simp only:)
      have C: "content = pre @ bytes_of_u32 (num_frames fr) @ block' @ []"
        using bl by (simp add: content_def img length_bytes_of_u32 block'_def butlast_conv_take)
      have lenC: "length content = length pre + 4 + length block'"
        by (simp add: C length_bytes_of_u32)
      have lc: "length content < 4294967296"
        using small1 bl by (simp add: lenC img length_bytes_of_u32 block'_def)
      have s: "load_frames e site sz content (of_nat (length pre))
                 = Done (\<lparr>num_frames = num_frames fr, frames = Some block'\<rparr>, of_nat (length content))"
        unfolding lenC using lc unfolding lenC
        unfolding C by (rule load_frames_records [OF n len' mal])
      have "cats \<noteq> []"
        using short k by (auto simp: rest_def)
      then obtain site' sz' fr' cats' where cats: "cats = (site', sz', fr') # cats'"
        by (cases cats) auto
      show ?thesis
        by (simp add: s cats load_frames_at_end [OF lc])
    qed
  next
    case later
    from ends_in_records_lower [OF later]
    have k: "length pre + length (frames_image fr) + 4 \<le> k" by simp
    have C: "content = pre @ frames_image fr @ (take (k - length (pre @ frames_image fr)) rest @ [u])"
      using k by (simp add: content_def)
    have s: "load_frames e site sz content (of_nat (length pre))
               = Done (fr, of_nat (length (pre @ frames_image fr)))"
      unfolding C by (rule load_frames_image [OF ld mal small1])
    have ok': "\<forall>(site, sz, fr)\<in>set cats. malloc_null e site = False \<and> loadable sz fr"
      using Cons.prems(1) by simp
    have eq: "take k ((pre @ frames_image fr) @ concat (map ?img cats)) @ [u] = content"
      by (simp add: content_def rest_def)
    have "load_all e (map (\<lambda>(site, sz, fr). (site, sz)) cats)
            (take k ((pre @ frames_image fr) @ concat (map ?img cats)) @ [u])
            (of_nat (length (pre @ frames_image fr))) = Fault ReadPastEnd"
      apply (rule Cons.IH [OF ok'])
      using total later short by (simp_all add: rest_def)
    then have "load_all e (map (\<lambda>(site, sz, fr). (site, sz)) cats) content
            (of_nat (length (pre @ frames_image fr))) = Fault ReadPastEnd"
      unfolding eq .
    then show ?thesis
      by (simp add: s)
  qed
  with goal show ?case by simp
qed

lemma ends_in_records_upper: "ends_in_records off imgs k \<Longrightarrow> k < off + length (concat imgs)"
  by (induction off imgs k rule: ends_in_records.induct) auto

lemma length_frames_image: "4 \<le> length (frames_image fr)"
  by (simp add: frames_image_def length_bytes_of_u32)

lemma file_image_categories:
  "file_image vf = (magic (header vf) @ model_name (header vf)) @ concat (category_images vf)"
  by (simp add: file_image_def category_images_def)

lemma ends_in_records_last:
  assumes "ends_in_records off (imgs @ [img]) k"
      and "k + 1 = off + length (concat imgs) + length img"
      and "4 \<le> length img" and "\<forall>i\<in>set imgs. 4 \<le> length i"
  shows "4 < length img"
  using assms
proof (induction imgs arbitrary: off)
  case Nil
  then show ?case by simp
next
  case (Cons i imgs)
  from Cons.prems(1) consider "k < off + length i"
    | "ends_in_records (off + length i) (imgs @ [img]) k" by auto
  then show ?case
  proof cases
    case 1
    with Cons.prems(2,3) show ?thesis by simp
  next
    case 2
    then show ?thesis
      using Cons.IH [of "off + length i"] Cons.prems(2,3,4) by simp
  qed
qed

lemma cut_last_category:
  assumes "cut_in_records vf k" and "k + 1 = length (file_image vf)" and "loaded vf"
  shows "\<exists>block. frames (ik_frames vf) = Some block \<and> block \<noteq> []"
proof -
  define imgs where "imgs =
     [frames_image (bone_frames vf), frames_image (morph_frames vf),
      frames_image (camera_frames vf), frames_image (light_frames vf),
      frames_image (shadow_frames vf)]"
  have c: "category_images vf = imgs @ [frames_image (ik_frames vf)]"
    by (simp add: category_images_def imgs_def)
  have "length (file_image vf) = 50 + length (concat imgs) + length (frames_image (ik_frames vf))"
    using assms(3) by (simp add: file_image_def imgs_def loaded_def length_magic)
  with assms(2)
  have k: "k + 1 = sizeof_VMDHeader + length (concat imgs) + length (frames_image (ik_frames vf))"
    by (simp add: sizeof_VMDHeader_def)
  have "4 < length (frames_image (ik_frames vf))"
    by (rule ends_in_records_last [OF assms(1) [unfolded cut_in_records_def c] k])
      (simp_all add: imgs_def length_frames_image)
  then show ?thesis
    by (cases "frames (ik_frames vf)") (auto simp: frames_image_def length_bytes_of_u32)
qed

subsection \<open>Sorting\<close>

lemma cmp_anti:
  "cmp_consistent cmp S \<Longrightarrow> a \<in> S \<Longrightarrow> b \<in> S \<Longrightarrow> (cmp a b < 0) = (0 < cmp b a)"
  unfolding cmp_consistent_def by blast

lemma cmp_trans:
  "cmp_consistent cmp S \<Longrightarrow> a \<in> S \<Longrightarrow> b \<in> S \<Longrightarrow> c \<in> S \<Longrightarrow>
     cmp a b \<le> 0 \<Longrightarrow> cmp b c \<le> 0 \<Longrightarrow> cmp a c \<le> 0"
  unfolding cmp_consistent_def by blast

lemma cmp_consistent_subset:
  assumes "cmp_consistent cmp S" and "T \<subseteq> S"
  shows "cmp_consistent cmp T"
  unfolding cmp_consistent_def
proof (intro conjI ballI impI)
  fix a b assume "a \<in> T" "b \<in> T"
  then have "a \<in> S" "b \<in> S" using assms(2) by auto
  then show "(cmp a b < 0) = (0 < cmp b a)" by (rule cmp_anti [OF assms(1)])
next
  fix a b c assume "a \<in> T" "b \<in> T" "c \<in> T" and le: "cmp a b \<le> 0 \<and> cmp b c \<le> 0"
  then have "a \<in> S" "b \<in> S" "c \<in> S" using assms(2) by auto
  then show "cmp a c \<le> 0" using le cmp_trans [OF assms(1)] by blast
qed

lemma mset_qsort_insert: "mset (qsort_insert cmp x ys) = add_mset x (mset ys)"
  by (induction ys) auto

lemma set_qsort_insert: "set (qsort_insert cmp x ys) = insert x (set ys)"
  by (induction ys) auto

lemma sorted_qsort_insert:
  assumes "cmp_consistent cmp (insert x (set ys))"
      and "sorted_wrt (\<lambda>a b. cmp a b \<le> 0) ys"
  shows "sorted_wrt (\<lambda>a b. cmp a b \<le> 0) (qsort_insert cmp x ys)"
  using assms
proof (induction ys)
  case Nil
  then show ?case by simp
next
  case (Cons y ys)
  note cc = Cons.prems(1)
  have cons: "cmp_consistent cmp (insert x (set ys))"
    by (rule cmp_consistent_subset [OF cc]) auto
  show ?case
  proof (cases "cmp x y \<le> 0")
    case True
    have "\<forall>z\<in>set ys. cmp x z \<le> 0"
    proof
      fix z assume z: "z \<in> set ys"
      with Cons.prems(2) have "cmp y z \<le> 0" by simp
      with True z show "cmp x z \<le> 0" using cmp_trans [OF cc, of x y z] by simp
    qed
    with True Cons.prems(2) show ?thesis by simp
  next
    case False
    then have "0 < cmp x y" by simp
    then have yx: "cmp y x \<le> 0" using cmp_anti [OF cc, of y x] by simp
    have "sorted_wrt (\<lambda>a b. cmp a b \<le> 0) (qsort_insert cmp x ys)"
      using Cons.IH [OF cons] Cons.prems(2) by simp
    with False yx Cons.prems(2) show ?thesis
      by (simp add: set_qsort_insert)
  qed
qed

lemma qsort_ref_sorts:
  assumes "cmp_consistent cmp (set xs)"
  shows "mset (qsort_ref cmp xs) = mset xs \<and> sorted_wrt (\<lambda>a b. cmp a b \<le> 0) (qsort_ref cmp xs)"
  using assms
proof (induction xs)
  case Nil
  then show ?case by (simp add: qsort_ref_def)
next
  case (Cons x xs)
  then have sub: "cmp_consistent cmp (set xs)"
    by (auto intro: cmp_consistent_subset)
  from Cons.IH [OF sub] have m: "mset (qsort_ref cmp xs) = mset xs"
    and s: "sorted_wrt (\<lambda>a b. cmp a b \<le> 0) (qsort_ref cmp xs)" by simp_all
  have set_eq: "set (qsort_ref cmp xs) = set xs" using m by (rule mset_eq_setD)
  have "sorted_wrt (\<lambda>a b. cmp a b \<le> 0) (qsort_insert cmp x (qsort_ref cmp xs))"
    using Cons.prems s by (intro sorted_qsort_insert) (simp_all add: set_eq)
  then show ?case
    by (simp add: qsort_ref_def mset_qsort_insert m [unfolded qsort_ref_def])
qed

lemma qsort_ref_conforms: "qsort_conforms qsort_ref"
  unfolding qsort_conforms_def using qsort_ref_sorts by blast

lemma qsort_conformsD:
  assumes "qsort_conforms qs" and "cmp_consistent cmp (set xs)"
  shows "mset (qs cmp xs) = mset xs" and "sorted_wrt (\<lambda>a b. cmp a b \<le> 0) (qs cmp xs)"
  using assms unfolding qsort_conforms_def by blast+

lemma sizeof_record_pos: "0 < sizeof_record t"
  by (simp add: sizeof_record_def sizeof_defs)

lemma recognized_simps:
  "recognized VMDL_BONE" "recognized VMDL_MORPH" "recognized VMDL_CAMERA"
  "recognized VMDL_LIGHT" "recognized VMDL_SHADOW" "recognized VMDL_IK"
  by (simp_all add: recognized_def)

lemma sizeof_record_simps:
  "sizeof_record VMDL_BONE = sizeof_VMDBoneSingleFrame"
  "sizeof_record VMDL_MORPH = sizeof_VMDMorphSingleFrame"
  "sizeof_record VMDL_SHADOW = sizeof_VMDShadowSingleFrame"
  by (simp_all add: sizeof_record_def VMDL_defs)

lemma frame_of_simps:
  "frame_of VMDL_BONE = bone_frame"
  "frame_of VMDL_MORPH = morph_frame"
  "frame_of VMDL_SHADOW = shadow_frame"
  by (simp_all add: frame_of_def VMDL_defs)

lemma qsort_concat:
  assumes "\<forall>r\<in>set recs. length r = sz" and "0 < sz"
  shows "qsort qs (concat recs) (length recs) sz (Some cmp) = Done (concat (qs cmp recs))"
  using assms by (simp add: qsort_def length_concat_fixed [OF assms(1)] chop_concat)

lemma VMDqsort_concat:
  assumes "recognized t" and "\<forall>r\<in>set recs. length r = sizeof_record t"
  shows "VMDqsort qs (Some (concat recs)) (length recs) (sizeof_record t) t g
           = Done (Some (concat (qs (frame_compare (frame_of t)) recs)), g)"
proof -
  have cmps: "VMDCompareBoneFrameNumber = frame_compare bone_frame"
    "VMDCompareMorphFrameNumber = frame_compare morph_frame"
    "VMDCompareCameraFrameNumber = frame_compare camera_frame"
    "VMDCompareLightFrameNumber = frame_compare light_frame"
    "VMDCompareShadowFrameNumber = frame_compare shadow_frame"
    "VMDCompareIKFrameNumber = frame_compare ik_frame"
    by (intro ext, simp add: compare_defs frame_compare_def)+
  note q = qsort_concat [OF assms(2) sizeof_record_pos]
  have sel:
    "(if t = VMDL_BONE then (Some VMDCompareBoneFrameNumber, g)
      else if t = VMDL_MORPH then (Some VMDCompareMorphFrameNumber, g)
      else if t = VMDL_CAMERA then (Some VMDCompareCameraFrameNumber, g)
      else if t = VMDL_LIGHT then (Some VMDCompareLightFrameNumber, g)
      else if t = VMDL_SHADOW then (Some VMDCompareShadowFrameNumber, g)
      else if t = VMDL_IK then (Some VMDCompareIKFrameNumber, g)
      else (None, say (InvalidType t) g)) = (Some (frame_compare (frame_of t)), g)"
    using assms(1) by (auto simp: recognized_def frame_of_def cmps VMDL_defs)
  show ?thesis
    unfolding VMDqsort_def by (simp add: sel q)
qed

lemma frame_compare_close:
  assumes "close_frames f recs" and "a \<in> set recs" and "b \<in> set recs"
  shows "frame_compare f a b = uint (f a) - uint (f b)"
  using assms by (simp add: frame_compare_def close_frames_def sint_diff)

lemma frame_compare_consistent:
  assumes "close_frames f recs"
  shows "cmp_consistent (frame_compare f) (set recs)"
  unfolding cmp_consistent_def
  by (intro conjI ballI impI) (simp_all add: frame_compare_close [OF assms])

lemma sorted_frames:
  assumes "close_frames f recs" and "set xs \<subseteq> set recs"
      and "sorted_wrt (\<lambda>a b. frame_compare f a b \<le> 0) xs"
  shows "sorted (map f xs)"
proof -
  have "sorted_wrt (\<lambda>a b. f a \<le> f b) xs"
  proof (rule sorted_wrt_mono_rel [OF _ assms(3)])
    fix a b assume "a \<in> set xs" "b \<in> set xs" and le: "frame_compare f a b \<le> 0"
    then have "a \<in> set recs" "b \<in> set recs" using assms(2) by auto
    from frame_compare_close [OF assms(1) this] le show "f a \<le> f b"
      by (simp add: word_le_def)
  qed
  then show ?thesis by (simp add: sorted_map)
qed

lemma mset_two:
  assumes "mset xs = mset [a, b]"
  shows "xs = [a, b] \<or> xs = [b, a]"
proof -
  from assms have "size (mset xs) = 2" by simp
  then have "length xs = 2" by simp
  then obtain x y where xs: "xs = [x, y]"
    by (cases xs; cases "tl xs") auto
  with assms show ?thesis
    by (auto simp: add_eq_conv_ex)
qed

lemma two_extreme_sorted:
  assumes qs: "qsort_conforms qs"
      and f: "f a = 0x00000001" "f b = 0xFFFFFFFF"
  shows "qs (frame_compare f) [a, b] = [b, a]" and "qs (frame_compare f) [b, a] = [b, a]"
proof -
  let ?cmp = "frame_compare f"
  have ab: "?cmp a b = 2" and ba: "?cmp b a = - 2" and aa: "?cmp a a = 0" and bb: "?cmp b b = 0"
    by (simp_all add: frame_compare_def f)
  have cons: "cmp_consistent ?cmp {a, b}"
    unfolding cmp_consistent_def by (simp add: ab ba aa bb)
  have c1: "cmp_consistent ?cmp (set [a, b])" and c2: "cmp_consistent ?cmp (set [b, a])"
    using cons by (simp_all add: insert_commute)
  note r1 = qsort_conformsD [OF qs c1] and r2 = qsort_conformsD [OF qs c2]
  have r2': "mset (qs ?cmp [b, a]) = mset [a, b]" using r2(1) by simp
  from mset_two [OF r1(1)] r1(2) show "qs ?cmp [a, b] = [b, a]"
    by (auto simp: ab)
  from mset_two [OF r2'] r2(2) show "qs ?cmp [b, a] = [b, a]"
    by (auto simp: ab)
qed

lemma two_far_sorted:
  assumes qs: "qsort_conforms qs"
      and far: "uint (f a) + 2147483648 < uint (f b)"
  shows "qs (frame_compare f) [a, b] = [b, a]" and "qs (frame_compare f) [b, a] = [b, a]"
proof -
  let ?cmp = "frame_compare f"
  have ab: "0 < ?cmp a b" and ba: "?cmp b a < 0"
    using sint_diff_far [OF far] by (simp_all add: frame_compare_def)
  have aa: "?cmp a a = 0" and bb: "?cmp b b = 0"
    by (simp_all add: frame_compare_def)
  have cons: "cmp_consistent ?cmp {a, b}"
    unfolding cmp_consistent_def using ab ba by (auto simp: aa bb)
  have c1: "cmp_consistent ?cmp (set [a, b])" and c2: "cmp_consistent ?cmp (set [b, a])"
    using cons by (simp_all add: insert_commute)
  note r1 = qsort_conformsD [OF qs c1] and r2 = qsort_conformsD [OF qs c2]
  have r2': "mset (qs ?cmp [b, a]) = mset [a, b]" using r2(1) by simp
  from mset_two [OF r1(1)] r1(2) ab show "qs ?cmp [a, b] = [b, a]"
    by auto
  from mset_two [OF r2'] r2(2) ab show "qs ?cmp [b, a] = [b, a]"
    by auto
qed

lemma sort_5131: "sort [5, 1, 3, 1 :: u32] = [1, 1, 3, 5]"
  by (simp add: sort_key_def word_le_nat_alt)

lemma VMDqsort_close_frames:
  assumes "qsort_conforms qs" and "recognized t"
      and "\<forall>r\<in>set recs. length r = sizeof_record t"
      and "close_frames (frame_of t) recs"
  shows "(\<exists>recs'. VMDqsort qs (Some (concat recs)) (length recs) (sizeof_record t) t g
                     = Done (Some (concat recs'), g)
               \<and> mset recs' = mset recs
               \<and> map (frame_of t) recs' = sort (map (frame_of t) recs))
         \<and> (length recs \<le> 1 \<longrightarrow>
              VMDqsort qs (Some (concat recs)) (length recs) (sizeof_record t) t g
                = Done (Some (concat recs), g))
         \<and> VMDqsort qs None 0 (sizeof_record t) t g = Done (None, say (NullPassed t) g)"
proof -
  let ?cmp = "frame_compare (frame_of t)"
  let ?out = "qs ?cmp recs"
  have run: "VMDqsort qs (Some (concat recs)) (length recs) (sizeof_record t) t g
               = Done (Some (concat ?out), g)"
    by (rule VMDqsort_concat [OF assms(2,3)])
  have cons: "cmp_consistent ?cmp (set recs)"
    by (rule frame_compare_consistent [OF assms(4)])
  with assms(1) have perm: "mset ?out = mset recs"
    and srt: "sorted_wrt (\<lambda>a b. ?cmp a b \<le> 0) ?out"
    unfolding qsort_conforms_def by blast+
  have "set ?out = set recs" using perm by (rule mset_eq_setD)
  then have "sorted (map (frame_of t) ?out)"
    using sorted_frames [OF assms(4) _ srt] by simp
  moreover have "mset (map (frame_of t) ?out) = mset (map (frame_of t) recs)"
    using perm by simp
  ultimately have frames: "map (frame_of t) ?out = sort (map (frame_of t) recs)"
    by (metis properties_for_sort)
  have small: "length recs \<le> 1 \<longrightarrow> ?out = recs"
  proof
    assume "length recs \<le> 1"
    then consider "recs = []" | r where "recs = [r]"
      by (cases recs) (auto simp: le_Suc_eq)
    then show "?out = recs"
      using perm by cases auto
  qed
  have null: "VMDqsort qs None 0 (sizeof_record t) t g = Done (None, say (NullPassed t) g)"
    by (simp add: VMDqsort_def)
  from run perm frames small null show ?thesis by auto
qed

subsection \<open>The example data\<close>

lemma readable_plain_file: "readable (plain_file bs)"
  by (simp add: readable_def plain_file_def)

lemma file_bytes_plain_file: "file_bytes (plain_file bs) = bs"
  by (simp add: plain_file_def)

lemma plain_file_update: "(plain_file bs)\<lparr>file_bytes := out\<rparr> = plain_file out"
  by (simp add: plain_file_def)

lemma record_lengths:
  "length (bone_record f) = sizeof_VMDBoneSingleFrame"
  "length (morph_record f) = sizeof_VMDMorphSingleFrame"
  "length (light_record f) = sizeof_VMDLightSingleFrame"
  "length (shadow_record f) = sizeof_VMDShadowSingleFrame"
  "length (ik_record f c) = sizeof_VMDIKSingleFrame"
  by (simp_all add: bone_record_def morph_record_def light_record_def shadow_record_def
      ik_record_def sizeof_defs length_bytes_of_u32)

lemma record_frames:
  "bone_frame (bone_record f) = f"
  "morph_frame (morph_record f) = f"
  "light_frame (light_record f) = f"
  "shadow_frame (shadow_record f) = f"
  "ik_frame (ik_record f c) = f"
  by (simp_all add: bone_record_def morph_record_def light_record_def shadow_record_def
      ik_record_def bone_frame_def morph_frame_def light_frame_def shadow_frame_def ik_frame_def
      frame_at_def u32_of_bytes_prefix)

lemma loadable_no_frames: "loadable sz no_frames"
  by (simp add: loadable_def no_frames_def)

lemma frames_image_no_frames: "frames_image no_frames = [0, 0, 0, 0]"
  by (simp add: frames_image_def no_frames_def bytes_zero)

lemma loaded_empty_doc: "length nm = 20 \<Longrightarrow> loaded (empty_doc nm)"
  by (simp add: loaded_def empty_doc_def loadable_no_frames)

lemma file_image_empty_doc: "file_image (empty_doc nm) = VMDLIB_MAGIC @ nm @ replicate 24 0"
  by (simp add: file_image_def empty_doc_def frames_image_no_frames numeral_eq_Suc)

lemma declared_size_empty_doc: "declared_size (empty_doc nm) = 74"
  by (simp add: declared_size_def declared_bytes_def empty_doc_def no_frames_def sizeof_defs)

lemma loaded_one_shadow_doc: "loaded one_shadow_doc"
  by (simp add: loaded_def one_shadow_doc_def empty_doc_def no_frames_def loadable_def
      record_lengths sizeof_defs)

lemma declared_size_one_shadow_doc: "declared_size one_shadow_doc < 4294967296"
  by (simp add: declared_size_def declared_bytes_def one_shadow_doc_def empty_doc_def
      no_frames_def sizeof_defs)

lemma load_one_shadow_doc:
  "VMDLoadFromFile (plain_file (file_image one_shadow_doc)) g = Done (Some one_shadow_doc, g)"
proof -
  have "length (file_image one_shadow_doc) < 4294967296"
    using VMDWriteToFile_image(2) [OF loaded_one_shadow_doc declared_size_one_shadow_doc]
      declared_size_one_shadow_doc by simp
  with load_file_image [of one_shadow_doc "plain_file (file_image one_shadow_doc)" "[]" g]
  show ?thesis by (simp add: loaded_one_shadow_doc readable_plain_file file_bytes_plain_file)
qed

lemma loaded_wrapped_light_doc: "loaded wrapped_light_doc"
  by (simp add: loaded_def wrapped_light_doc_def empty_doc_def no_frames_def loadable_def
      record_lengths sizeof_defs)

lemma file_image_wrapped_light_doc: "file_image wrapped_light_doc = wrapped_light_file"
  by (simp add: file_image_def wrapped_light_doc_def wrapped_light_file_def empty_doc_def
      no_frames_def frames_image_def bytes_of_u32_def)

lemma length_wrapped_light_file: "length wrapped_light_file = 102"
  by (simp add: wrapped_light_file_def length_magic record_lengths sizeof_defs)

lemma loaded_ten_bones_doc: "loaded ten_bones_doc"
  by (simp add: loaded_def ten_bones_doc_def empty_doc_def no_frames_def loadable_def
      record_lengths sizeof_defs length_concat_replicate)

lemma length_ten_bones: "length (file_image ten_bones_doc) = 1184"
  by (simp add: file_image_def ten_bones_doc_def empty_doc_def no_frames_def
      frames_image_def length_bytes_of_u32 length_magic length_concat_replicate record_lengths
      sizeof_defs)

lemma cut_ten_bones: "cut_in_records ten_bones_doc 165"
  by (simp add: cut_in_records_def category_images_def ten_bones_doc_def empty_doc_def
      no_frames_def frames_image_def length_bytes_of_u32 length_concat_replicate
      record_lengths sizeof_defs)

lemma loaded_shadow_ik_doc: "loaded shadow_ik_doc"
  by (simp add: loaded_def shadow_ik_doc_def empty_doc_def no_frames_def loadable_def
      two_ik_records_def record_lengths sizeof_defs)

lemma length_shadow_ik: "length (file_image shadow_ik_doc) = 143"
  by (simp add: file_image_def shadow_ik_doc_def empty_doc_def no_frames_def
      frames_image_def length_bytes_of_u32 length_magic two_ik_records_def record_lengths
      sizeof_defs)

lemma cut_shadow_ik: "cut_in_records shadow_ik_doc 142"
  by (simp add: cut_in_records_def category_images_def shadow_ik_doc_def empty_doc_def
      no_frames_def frames_image_def length_bytes_of_u32 two_ik_records_def
      record_lengths sizeof_defs)

lemma readable_update: "readable (e\<lparr>uninit_byte := s\<rparr>) = readable e"
  by (simp add: readable_def)






lemma VMDqsort_sort_example:
  "\<exists>recs'. VMDqsort qsort_ref (Some (concat sort_example)) 4 sizeof_VMDShadowSingleFrame
              VMDL_SHADOW initial = Done (Some (concat recs'), initial)
          \<and> mset recs' = mset sort_example
          \<and> map shadow_frame recs' = [1, 1, 3, 5]"
proof -
  have len: "\<forall>r\<in>set sort_example. length r = sizeof_record VMDL_SHADOW"
    by (simp add: sort_example_def record_lengths sizeof_record_simps)
  have close: "close_frames (frame_of VMDL_SHADOW) sort_example"
    by (simp add: close_frames_def sort_example_def frame_of_simps record_frames)
  have frames: "map shadow_frame sort_example = [5, 1, 3, 1]"
    by (simp add: sort_example_def record_frames)
  have n: "length sort_example = 4" by (simp add: sort_example_def)
  from VMDqsort_close_frames [OF qsort_ref_conforms recognized_simps(5) len close, of initial]
  show ?thesis
    unfolding sizeof_record_simps frame_of_simps frames sort_5131 n by blast
qed

subsection \<open>Failure paths\<close>

lemma load_fopen_failure:
  "fopen_null e \<Longrightarrow>
     VMDLoadFromFile e g = Done (None, (say FileOpenError g)\<lparr>VMD_ERROR := VMDLIB_E_FH\<rparr>)"
  by (simp add: VMDLoadFromFile_def)

lemma load_content_malloc_failure:
  "fopen_null e = False \<Longrightarrow> malloc_null e A_content \<Longrightarrow>
     VMDLoadFromFile e g = Done (None, (say InsufficientMemory g)\<lparr>VMD_ERROR := VMDLIB_E_ME\<rparr>)"
  by (simp add: VMDLoadFromFile_def)

lemma load_read_failure:
  "fopen_null e = False \<Longrightarrow> malloc_null e A_content = False \<Longrightarrow>
     file_bytes e = [] \<or> fread_error e \<Longrightarrow>
     VMDLoadFromFile e g = Done (None, say FileReadError g)"
  by (auto simp: VMDLoadFromFile_def)

lemma VMD_ERROR_say: "VMD_ERROR (say m g) = VMD_ERROR g"
  by (simp add: say_def)

lemma load_error_kinds:
  assumes "VMDLoadFromFile e g = Done (None, g')"
  shows "VMD_ERROR g' = VMDLIB_E_FH \<or> VMD_ERROR g' = VMDLIB_E_ME
       \<or> VMD_ERROR g' = VMDLIB_E_FT \<or> VMD_ERROR g' = VMD_ERROR g"
  using assms unfolding VMDLoadFromFile_def Let_def
  by (auto simp: obind_Done VMD_ERROR_say split: if_splits)

lemma VMDqsort_unrecognized:
  "recognized t = False \<Longrightarrow> VMDqsort qs (Some block) num sz t g = Fault NullCall"
  by (simp add: VMDqsort_def qsort_def recognized_def)

lemma VMDqsort_keeps_error:
  "VMDqsort qs data num sz t g = Done (data', g') \<Longrightarrow> VMD_ERROR g' = VMD_ERROR g"
  by (auto simp: VMDqsort_def obind_Done VMD_ERROR_say split: option.splits if_splits)

section \<open>The claims\<close>

subsection \<open>C1: round trip\<close>

text \<open>
  Claim C1, amended. Let \<open>d\<close> be the document that a successful \<^verbatim>\<open>VMDLoadFromFile\<close>
  returned, with a declared size below \<open>2^32\<close> bytes (50 for the header and, for each
  category, 4 for its count and the record size for each record). Then
  \<^verbatim>\<open>VMDWriteToFile\<close> succeeds on \<open>d\<close>, and \<^verbatim>\<open>VMDLoadFromFile\<close> on the file it
  wrote returns \<open>d\<close> again: the same header, the same six counts and the same records
  in the same order.
\<close>

theorem roundtrip:
  assumes "VMDLoadFromFile e g = Done (Some d, g')"
      and "declared_size d < 4294967296"
      and "readable e'"
  shows "\<exists>out. VMDWriteToFile False (Some d) g' = Done (True, Some out, g')
           \<and> VMDLoadFromFile (e'\<lparr>file_bytes := out\<rparr>) g'' = Done (Some d, g'')"
proof -
  from assms(1) have ld: "loaded d" by (simp add: VMDLoadFromFile_Some)
  have w: "VMDWriteToFile False (Some d) g' = Done (True, Some (file_image d), g')"
    by (rule VMDWriteToFile_image(1) [OF ld assms(2)])
  have len: "length (file_image d) < 4294967296"
    using VMDWriteToFile_image(2) [OF ld assms(2)] assms(2) by simp
  have rd: "readable (e'\<lparr>file_bytes := file_image d\<rparr>)"
    using assms(3) by (simp add: readable_def)
  have "VMDLoadFromFile (e'\<lparr>file_bytes := file_image d\<rparr>) g'' = Done (Some d, g'')"
    by (rule load_file_image [OF ld rd len, of "[]"]) simp
  with w show ?thesis by blast
qed

text \<open>The theorem at a document with one Shadow record.\<close>

theorem roundtrip_witness:
  "\<exists>out. VMDWriteToFile False (Some one_shadow_doc) initial
            = Done (True, Some out, initial)
         \<and> VMDLoadFromFile (plain_file out) initial = Done (Some one_shadow_doc, initial)"
  using roundtrip [of "plain_file (file_image one_shadow_doc)" initial one_shadow_doc
      initial "plain_file []" initial]
  by (simp add: load_one_shadow_doc declared_size_one_shadow_doc readable_plain_file
      plain_file_update)

text \<open>
  The claim as stated, for every successfully loaded document, fails: a 102-byte file
  with the Light count \<^verbatim>\<open>0x80000001\<close> and one Light record is loaded without an error,
  since \<open>28 * 0x80000001\<close> is 28 in the 32 bits of \<^verbatim>\<open>cpy_size\<close>, and writing the
  document then reads \<open>28 * 0x80000001\<close> bytes from the 28-byte block.
\<close>

theorem roundtrip_wrapped_count_counterexample:
  "VMDLoadFromFile (plain_file wrapped_light_file) initial
     = Done (Some wrapped_light_doc, initial)
   \<and> VMDWriteToFile False (Some wrapped_light_doc) initial = Fault ReadPastEnd"
proof -
  have "length (file_image wrapped_light_doc) < 4294967296"
    by (simp add: file_image_wrapped_light_doc length_wrapped_light_file)
  with load_file_image [of wrapped_light_doc "plain_file wrapped_light_file" "[]" initial]
  have "VMDLoadFromFile (plain_file wrapped_light_file) initial
          = Done (Some wrapped_light_doc, initial)"
    by (simp add: loaded_wrapped_light_doc readable_plain_file file_bytes_plain_file
        file_image_wrapped_light_doc)
  moreover have "write_frames sizeof_VMDLightSingleFrame (light_frames wrapped_light_doc)
                   = Fault ReadPastEnd"
    by (simp add: write_frames_def wrapped_light_doc_def memread_def record_lengths sizeof_defs)
  then have "VMDWriteToFile False (Some wrapped_light_doc) initial = Fault ReadPastEnd"
    by (simp add: VMDWriteToFile_def wrapped_light_doc_def empty_doc_def no_frames_def
        write_frames_def [of _ "\<lparr>num_frames = 0, frames = None\<rparr>"])
  ultimately show ?thesis by simp
qed

subsection \<open>C2: truncated input\<close>

text \<open>
  Claim C2, amended. \<^verbatim>\<open>VMDLoadFromFile\<close> checks no count against the size of the
  buffer and has no error for truncated input. Let the file hold the first \<open>k\<close> bytes
  of the file of a loaded document, that file being shorter than \<open>2^32\<close> bytes, and
  let it end inside the records of a category: it holds the count of that category and
  not all of the records that the count declares, such as a Bone count of 10 followed by
  fewer than 10 Bone records. Then no error is recorded. When more than one byte is
  missing, the call reads past the end of its buffer of \<^verbatim>\<open>fsize + 1\<close> bytes. When
  only the last byte of the file is missing, every read stays inside the buffer, and
  the call returns a document whose ShowIK records end with the byte that
  \<^verbatim>\<open>malloc\<close> left in the last place of the buffer.
\<close>

theorem truncated_records_unchecked:
  assumes ld: "loaded vf" and rd: "readable e"
      and small: "length (file_image vf) < 4294967296"
      and cut: "cut_in_records vf k"
      and bytes: "file_bytes e = take k (file_image vf)"
  shows "VMDLoadFromFile e g =
           (if k + 1 < length (file_image vf) then Fault ReadPastEnd
            else Done (Some (with_last_byte (uninit_byte e) vf), g))"
proof -
  define H where "H = magic (header vf) @ model_name (header vf)"
  define u where "u = uninit_byte e"
  let ?img = "\<lambda>(site :: alloc_site, sz :: nat, fr). frames_image fr"
  define cats where "cats =
     [(A_bone, sizeof_VMDBoneSingleFrame, bone_frames vf),
      (A_morph, sizeof_VMDMorphSingleFrame, morph_frames vf),
      (A_camera, sizeof_VMDCameraSingleFrame, camera_frames vf),
      (A_light, sizeof_VMDLightSingleFrame, light_frames vf),
      (A_shadow, sizeof_VMDShadowSingleFrame, shadow_frames vf),
      (A_ik, sizeof_VMDIKSingleFrame, ik_frames vf)]"
  have imgs: "map ?img cats = category_images vf"
    by (simp add: cats_def category_images_def)
  have sel: "map (\<lambda>(site, sz, fr). (site, sz)) cats = categories"
    by (simp add: cats_def categories_def)
  have F: "file_image vf = H @ concat (category_images vf)"
    by (simp add: file_image_categories H_def)
  have lenH: "length H = 50" and mg: "magic (header vf) = VMDLIB_MAGIC"
    using ld by (simp_all add: loaded_def H_def length_magic)
  have cut': "ends_in_records (length H) (category_images vf) k"
    using cut by (simp add: cut_in_records_def lenH sizeof_VMDHeader_def)
  have klo: "54 \<le> k" using ends_in_records_lower [OF cut'] lenH by simp
  have khi: "k < length (file_image vf)"
    using ends_in_records_upper [OF cut'] by (simp add: F)
  have ne: "file_bytes e \<noteq> []"
    using klo khi by (auto simp: bytes)
  note rd' = rd [unfolded readable_def]
  show ?thesis
  proof (cases "k + 1 < length (file_image vf)")
    case True
    define content where "content = file_bytes e @ [uninit_byte e]"
    have content: "content = take k (H @ concat (category_images vf)) @ [u]"
      by (simp add: content_def bytes F u_def)
    have C2: "content = H @ (take (k - 50) (concat (category_images vf)) @ [u])"
      using klo by (simp add: content lenH)
    have chk: "VMDCheckHeader content = Done True"
      using VMDCheckHeader_magic
        [of "model_name (header vf) @ take (k - 50) (concat (category_images vf)) @ [u]"]
      by (simp add: C2 H_def mg)
    have hd: "memread content 0 sizeof_VMDHeader = Done H"
      using memread_append [of "[]" H "take (k - 50) (concat (category_images vf)) @ [u]"]
      by (simp add: C2 lenH sizeof_VMDHeader_def)
    have ok: "\<forall>(site, sz, fr)\<in>set cats. malloc_null e site = False \<and> loadable sz fr"
      using ld rd' by (simp add: cats_def loaded_def)
    have "load_all e (map (\<lambda>(site, sz, fr). (site, sz)) cats)
            (take k (H @ concat (map ?img cats)) @ [u]) (of_nat (length H)) = Fault ReadPastEnd"
      apply (rule load_all_truncated [OF ok])
      using small cut' True by (simp_all add: imgs F)
    then have "load_all e categories content (of_nat sizeof_VMDHeader) = Fault ReadPastEnd"
      by (simp only: sel imgs content lenH sizeof_VMDHeader_def) simp
    with True show ?thesis
      using load_all_Fault [of e h ReadPastEnd g for h] rd' ne chk hd
      by (simp add: content_def)
  next
    case False
    with khi have k: "k + 1 = length (file_image vf)" by simp
    from cut_last_category [OF cut k ld] obtain block
      where fr: "frames (ik_frames vf) = Some block" and bl: "block \<noteq> []" by blast
    define P where "P = magic (header vf) @ model_name (header vf)
       @ frames_image (bone_frames vf) @ frames_image (morph_frames vf)
       @ frames_image (camera_frames vf) @ frames_image (light_frames vf)
       @ frames_image (shadow_frames vf) @ bytes_of_u32 (num_frames (ik_frames vf))"
    have F1: "file_image vf = P @ block"
      by (simp add: file_image_def P_def frames_image_def fr)
    have F2: "file_image (with_last_byte u vf) = P @ butlast block @ [u]"
      by (simp add: file_image_def P_def frames_image_def fr with_last_byte_def)
    have "k = length P + (length block - 1)"
      using k bl by (cases block) (simp_all add: F1)
    then have tk: "take k (P @ block) = P @ butlast block"
      by (simp add: butlast_conv_take)
    have content: "file_bytes e @ [uninit_byte e] = file_image (with_last_byte u vf) @ []"
      unfolding bytes F1 F2 u_def [symmetric] tk by simp
    obtain ys y where ys: "block = ys @ [y]"
      using bl by (cases block rule: rev_cases) auto
    have ld': "loaded (with_last_byte u vf)"
      using ld by (simp add: loaded_def with_last_byte_def loadable_def fr ys)
    have small': "length (file_image (with_last_byte u vf)) < 4294967296"
      using small by (simp add: F1 F2 ys)
    have "VMDLoadFromFile e g = Done (Some (with_last_byte u vf), g)"
      by (rule load_content_image [OF ld' rd small' content ne])
    with False show ?thesis by (simp add: u_def)
  qed
qed

text \<open>
  The theorem at the file of ten Bone records, cut after the first record, and at a
  file of one Shadow and two ShowIK records without its last byte.
\<close>

theorem truncated_records_unchecked_witness:
  "VMDLoadFromFile (plain_file (take 165 (file_image ten_bones_doc))) initial
     = Fault ReadPastEnd
   \<and> VMDLoadFromFile ((plain_file (take 142 (file_image shadow_ik_doc)))\<lparr>uninit_byte := 0xAA\<rparr>)
       initial
     = Done (Some (with_last_byte 0xAA shadow_ik_doc), initial)"
  using truncated_records_unchecked [of ten_bones_doc
      "plain_file (take 165 (file_image ten_bones_doc))" 165 initial]
    truncated_records_unchecked [of shadow_ik_doc
      "(plain_file (take 142 (file_image shadow_ik_doc)))\<lparr>uninit_byte := 0xAA\<rparr>" 142 initial]
  by (simp add: loaded_ten_bones_doc loaded_shadow_ik_doc readable_plain_file readable_update
      length_ten_bones length_shadow_ik file_bytes_plain_file cut_ten_bones cut_shadow_ik)

text \<open>
  The claim as stated fails on a file of a header, a Bone count of 10 and one Bone
  record: 1110 bytes are copied from offset 54 of a buffer of 166 bytes.
\<close>

theorem truncated_bone_counterexample:
  "VMDLoadFromFile (plain_file truncated_bone_file) initial = Fault ReadPastEnd"
proof -
  define content where "content = truncated_bone_file @ [0]"
  have C: "content = VMDLIB_MAGIC @ replicate 20 0 @ bytes_of_u32 10 @ bone_record 0 @ [0]"
    by (simp add: content_def truncated_bone_file_def bytes_of_u32_def)
  have m: "memread content 0 30 = Done VMDLIB_MAGIC"
    using memread_append [of "[]" VMDLIB_MAGIC] by (simp add: C length_magic)
  have h: "memread content 0 50 = Done (VMDLIB_MAGIC @ replicate 20 0)"
    using memread_append [of "[]" "VMDLIB_MAGIC @ replicate 20 0"]
    by (simp add: C length_magic)
  have c: "read_u32 content 50 = Done 10"
    using read_u32_append [of "VMDLIB_MAGIC @ replicate 20 0" 10 "bone_record 0 @ [0]"]
    by (simp add: C length_magic)
  have len: "length content = 166"
    by (simp add: C length_magic length_bytes_of_u32 record_lengths sizeof_defs)
  have r: "memread content 54 1110 = Fault ReadPastEnd"
    by (simp add: memread_def len)
  have "load_frames (plain_file truncated_bone_file) A_bone sizeof_VMDBoneSingleFrame
          content 50 = Fault ReadPastEnd"
    by (simp add: load_frames_def c r plain_file_def sizeof_defs)
  moreover have "truncated_bone_file \<noteq> []"
    by (simp add: truncated_bone_file_def)
  ultimately show ?thesis
    unfolding VMDLoadFromFile_def Let_def
    by (simp add: plain_file_def content_def [symmetric] VMDCheckHeader_def m h sizeof_VMDHeader_def)
qed

subsection \<open>C3: unsigned frame comparison\<close>

text \<open>
  Claim C3 says that of two records with the frame numbers \<^verbatim>\<open>0x00000001\<close> and
  \<^verbatim>\<open>0xFFFFFFFF\<close> the first comes first after sorting. The code does the opposite, in
  every category and with every conforming \<^verbatim>\<open>qsort\<close>: the comparison function returns
  \<open>1 - 0xFFFFFFFF\<close> as an \<^verbatim>\<open>int\<close>, which is 2, so the record with \<^verbatim>\<open>0x00000001\<close>
  counts as the greater one and is placed last.
\<close>

theorem signed_compare_puts_large_first:
  assumes "qsort_conforms qs" and "recognized t"
      and "length a = sizeof_record t" and "length b = sizeof_record t"
      and "frame_of t a = 0x00000001" and "frame_of t b = 0xFFFFFFFF"
  shows "VMDqsort qs (Some (a @ b)) 2 (sizeof_record t) t g = Done (Some (b @ a), g)
       \<and> VMDqsort qs (Some (b @ a)) 2 (sizeof_record t) t g = Done (Some (b @ a), g)"
proof -
  from VMDqsort_concat [OF assms(2), of "[a, b]" qs g]
  have "VMDqsort qs (Some (a @ b)) 2 (sizeof_record t) t g
          = Done (Some (concat (qs (frame_compare (frame_of t)) [a, b])), g)"
    using assms(3,4) by (simp add: numeral_2_eq_2)
  moreover from VMDqsort_concat [OF assms(2), of "[b, a]" qs g]
  have "VMDqsort qs (Some (b @ a)) 2 (sizeof_record t) t g
          = Done (Some (concat (qs (frame_compare (frame_of t)) [b, a])), g)"
    using assms(3,4) by (simp add: numeral_2_eq_2)
  ultimately show ?thesis
    by (simp add: two_extreme_sorted [OF assms(1,5,6)])
qed

text \<open>The theorem at two Bone records and the insertion sort.\<close>

theorem signed_compare_puts_large_first_witness:
  "VMDqsort qsort_ref (Some (bone_record 0x00000001 @ bone_record 0xFFFFFFFF)) 2
     sizeof_VMDBoneSingleFrame VMDL_BONE initial
     = Done (Some (bone_record 0xFFFFFFFF @ bone_record 0x00000001), initial)"
  using signed_compare_puts_large_first [of qsort_ref VMDL_BONE "bone_record 0x00000001"
      "bone_record 0xFFFFFFFF" initial]
  by (simp add: qsort_ref_conforms recognized_simps sizeof_record_simps frame_of_simps
      record_lengths record_frames)

subsection \<open>C4: VMDSortAllFrames\<close>

text \<open>
  Claim C4 says that \<^verbatim>\<open>VMDSortAllFrames\<close> sorts every category with that category's
  record size. The code passes \<^verbatim>\<open>sizeof(VMDCameraSingleFrame)\<close>, 61, for the Light,
  Shadow and ShowIK categories, whose records have 28, 9 and 30 bytes. On the document
  loaded from a file with two Light records, \<^verbatim>\<open>qsort\<close> is told to sort two elements
  of 61 bytes in a block of 56 bytes.
\<close>

theorem sort_all_wrong_element_size:
  "VMDLoadFromFile (plain_file (file_image two_lights_doc)) g = Done (Some two_lights_doc, g)
   \<and> VMDSortAllFrames qs two_lights_doc g = Fault ArrayOverrun"
proof -
  have ld: "loaded two_lights_doc"
    by (simp add: loaded_def two_lights_doc_def empty_doc_def no_frames_def loadable_def
      record_lengths sizeof_defs)
  have "length (file_image two_lights_doc) = 130"
    by (simp add: file_image_def two_lights_doc_def empty_doc_def no_frames_def
      frames_image_def length_bytes_of_u32 length_magic record_lengths sizeof_defs)
  with load_file_image [of two_lights_doc "plain_file (file_image two_lights_doc)" "[]" g]
  have "VMDLoadFromFile (plain_file (file_image two_lights_doc)) g = Done (Some two_lights_doc, g)"
    by (simp add: ld readable_plain_file file_bytes_plain_file)
  moreover have "qsort qs (light_record 2 @ light_record 1) 2 sizeof_VMDCameraSingleFrame
                   (Some VMDCompareLightFrameNumber) = Fault ArrayOverrun"
    by (simp add: qsort_def record_lengths sizeof_defs)
  then have "VMDSortAllFrames qs two_lights_doc g = Fault ArrayOverrun"
    by (simp add: VMDSortAllFrames_def VMDqsort_def two_lights_doc_def empty_doc_def no_frames_def
        VMDL_defs)
  ultimately show ?thesis by simp
qed

subsection \<open>C5: unrecognized category selector\<close>

text \<open>
  Claim C5 says that \<^verbatim>\<open>VMDqsort\<close> with a selector outside the six categories records
  the invalid-call error and reorders nothing. The code, with the selector 6, prints a
  line, leaves \<^verbatim>\<open>funcp\<close> null and goes on to call \<^verbatim>\<open>qsort\<close> with it;
  \<^verbatim>\<open>VMD_ERROR\<close> is never assigned in \<^verbatim>\<open>VMDqsort\<close>, as the call with null data
  shows, which returns with \<^verbatim>\<open>VMD_ERROR\<close> still \<^verbatim>\<open>VMDLIB_E_INIT\<close>.
\<close>

theorem unrecognized_type_null_comparator:
  "VMDqsort qs (Some (bone_record 2 @ bone_record 1)) 2 sizeof_VMDBoneSingleFrame 6 initial
     = Fault NullCall
   \<and> VMDqsort qs None 0 sizeof_VMDBoneSingleFrame 6 initial
       = Done (None, \<lparr>VMD_ERROR = VMDLIB_E_INIT, printed = [NullPassed 6]\<rparr>)"
  by (simp add: VMDqsort_def qsort_def VMDL_defs say_def initial_def)

subsection \<open>C6: error state after a failed load\<close>

text \<open>
  Claim C6 says that after every failed \<^verbatim>\<open>VMDLoadFromFile\<close> the error state holds the
  kind of the failure. When \<^verbatim>\<open>fread\<close> returns 0, for an empty file or a failed read,
  the code prints a line, returns null and leaves \<^verbatim>\<open>VMD_ERROR\<close> as it was, here
  \<^verbatim>\<open>VMDLIB_E_INIT\<close>; and a failed \<^verbatim>\<open>malloc\<close> of the \<^verbatim>\<open>VMDFile\<close> is not checked,
  the header being copied to the null pointer.
\<close>

theorem read_failure_keeps_error_state:
  "VMDLoadFromFile (plain_file []) initial
     = Done (None, \<lparr>VMD_ERROR = VMDLIB_E_INIT, printed = [FileReadError]\<rparr>)
   \<and> VMDLoadFromFile ((plain_file (file_image one_shadow_doc))\<lparr>fread_error := True\<rparr>)
         initial = Done (None, \<lparr>VMD_ERROR = VMDLIB_E_INIT, printed = [FileReadError]\<rparr>)
   \<and> VMDLoadFromFile
         ((plain_file (file_image one_shadow_doc))\<lparr>malloc_null := (\<lambda>site. site = A_vf)\<rparr>)
         initial = Fault NullWrite"
proof -
  obtain rest where img: "file_image one_shadow_doc = VMDLIB_MAGIC @ rest"
    by (simp add: file_image_def one_shadow_doc_def empty_doc_def)
  have chk: "VMDCheckHeader (file_image one_shadow_doc @ [0]) = Done True"
    unfolding img using VMDCheckHeader_magic [of "rest @ [0]"] by simp
  have "length (file_image one_shadow_doc) \<noteq> 0"
    unfolding img by (simp add: length_magic)
  then have ne: "file_image one_shadow_doc \<noteq> []" by auto
  show ?thesis
    by (simp add: VMDLoadFromFile_def plain_file_def chk ne say_def initial_def)
qed

subsection \<open>C7: wrong magic\<close>

text \<open>
  Claim C7. When the file opens, the buffer is allocated and read, and one of its first
  30 bytes differs from the magic (the five null bytes at its end included),
  \<^verbatim>\<open>VMDLoadFromFile\<close> returns null and sets \<^verbatim>\<open>VMD_ERROR\<close> to \<^verbatim>\<open>VMDLIB_E_FT\<close>.
\<close>

theorem wrong_magic_rejected:
  assumes "fopen_null e = False" and "malloc_null e A_content = False"
      and "fread_error e = False"
      and "30 \<le> length (file_bytes e)"
      and "i < 30" and "file_bytes e ! i \<noteq> VMDLIB_MAGIC ! i"
  shows "VMDLoadFromFile e g = Done (None, (say NotVMDFile g)\<lparr>VMD_ERROR := VMDLIB_E_FT\<rparr>)"
proof -
  have "take 30 (file_bytes e) \<noteq> VMDLIB_MAGIC"
  proof
    assume "take 30 (file_bytes e) = VMDLIB_MAGIC"
    then have "take 30 (file_bytes e) ! i = VMDLIB_MAGIC ! i" by simp
    with assms(5,6) show False by simp
  qed
  with assms(4) have "VMDCheckHeader (file_bytes e @ [uninit_byte e]) = Done False"
    by (simp add: VMDCheckHeader_def memread_def)
  moreover have "file_bytes e \<noteq> []" using assms(4) by auto
  ultimately show ?thesis
    unfolding VMDLoadFromFile_def Let_def using assms(1,2,3)
    by simp
qed

text \<open>The theorem at a file whose 30th byte is 1 where the magic has a null byte.\<close>

theorem wrong_magic_rejected_witness:
  "VMDLoadFromFile (plain_file (take 29 VMDLIB_MAGIC @ [1] @ replicate 44 0)) initial
     = Done (None, \<lparr>VMD_ERROR = VMDLIB_E_FT, printed = [NotVMDFile]\<rparr>)"
  using wrong_magic_rejected [of "plain_file (take 29 VMDLIB_MAGIC @ [1] @ replicate 44 0)" 29 initial]
  by (simp add: plain_file_def length_magic nth_append magic_last say_def initial_def)

subsection \<open>C8: sorting one category\<close>

text \<open>
  Claim C8 says that sorting leaves the records of every category in ascending order of
  their frame numbers. The code does so when any two frame numbers are less than
  \<open>2^31\<close> apart (lemma \<open>VMDqsort_close_frames\<close>: a permutation in ascending order,
  \<open>[5, 1, 3, 1]\<close> reading back as \<open>[1, 1, 3, 5]\<close>, and a block of at most one record
  unchanged). For two records whose frame numbers are more than \<open>2^31\<close> apart it does
  the opposite, in every category and with every conforming \<^verbatim>\<open>qsort\<close>: the
  comparison function subtracts the two \<^verbatim>\<open>uint32_t\<close> and returns the difference as
  an \<^verbatim>\<open>int\<close>, which has the sign of the opposite order, and the record with the
  greater frame number is placed first.
\<close>

theorem VMDqsort_far_frames_descending:
  assumes "qsort_conforms qs" and "recognized t"
      and "length a = sizeof_record t" and "length b = sizeof_record t"
      and "uint (frame_of t a) + 2147483648 < uint (frame_of t b)"
  shows "VMDqsort qs (Some (a @ b)) 2 (sizeof_record t) t g = Done (Some (b @ a), g)
       \<and> VMDqsort qs (Some (b @ a)) 2 (sizeof_record t) t g = Done (Some (b @ a), g)
       \<and> frame_of t a < frame_of t b
       \<and> \<not> sorted (map (frame_of t) [b, a])"
proof -
  from VMDqsort_concat [OF assms(2), of "[a, b]" qs g]
  have "VMDqsort qs (Some (a @ b)) 2 (sizeof_record t) t g
          = Done (Some (concat (qs (frame_compare (frame_of t)) [a, b])), g)"
    using assms(3,4) by (simp add: numeral_2_eq_2)
  moreover from VMDqsort_concat [OF assms(2), of "[b, a]" qs g]
  have "VMDqsort qs (Some (b @ a)) 2 (sizeof_record t) t g
          = Done (Some (concat (qs (frame_compare (frame_of t)) [b, a])), g)"
    using assms(3,4) by (simp add: numeral_2_eq_2)
  moreover have lt: "frame_of t a < frame_of t b"
    using assms(5) by (simp add: word_less_def)
  ultimately show ?thesis
    by (simp add: two_far_sorted [OF assms(1,5)] not_le)
qed

text \<open>The theorem at two Shadow records with the frame numbers 5 and \<^verbatim>\<open>0x90000000\<close>.\<close>

theorem VMDqsort_far_frames_descending_witness:
  "VMDqsort qsort_ref (Some (shadow_record 5 @ shadow_record 0x90000000)) 2
     sizeof_VMDShadowSingleFrame VMDL_SHADOW initial
     = Done (Some (shadow_record 0x90000000 @ shadow_record 5), initial)
   \<and> \<not> sorted (map shadow_frame [shadow_record 0x90000000, shadow_record 5])"
  using VMDqsort_far_frames_descending [of qsort_ref VMDL_SHADOW "shadow_record 5"
      "shadow_record 0x90000000" initial]
  by (simp add: qsort_ref_conforms recognized_simps sizeof_record_simps frame_of_simps
      record_lengths record_frames)

subsection \<open>C9: empty categories\<close>

text \<open>
  Claim C9. A buffer of the magic, a 20-byte name and six zero counts is loaded as
  the document with that header and six categories without records, and writing that
  document gives those 74 bytes again.
\<close>

theorem decode_empty_categories:
  assumes "readable e" and "length nm = 20"
      and "file_bytes e = VMDLIB_MAGIC @ nm @ replicate 24 0"
  shows "VMDLoadFromFile e g = Done (Some (empty_doc nm), g)
       \<and> VMDWriteToFile False (Some (empty_doc nm)) g
           = Done (True, Some (VMDLIB_MAGIC @ nm @ replicate 24 0), g)"
proof -
  have ld: "loaded (empty_doc nm)" by (rule loaded_empty_doc [OF assms(2)])
  have len: "length (file_image (empty_doc nm)) < 4294967296"
    using assms(2) by (simp add: file_image_empty_doc length_magic)
  have "VMDLoadFromFile e g = Done (Some (empty_doc nm), g)"
    by (rule load_file_image [OF ld assms(1) len, of "[]"]) (simp add: assms(3) file_image_empty_doc)
  moreover have "VMDWriteToFile False (Some (empty_doc nm)) g
           = Done (True, Some (VMDLIB_MAGIC @ nm @ replicate 24 0), g)"
    using VMDWriteToFile_image(1) [OF ld, of g]
    by (simp add: declared_size_empty_doc file_image_empty_doc)
  ultimately show ?thesis by simp
qed

text \<open>The theorem at the name of 20 null bytes.\<close>

theorem decode_empty_categories_witness:
  "VMDLoadFromFile (plain_file (VMDLIB_MAGIC @ replicate 20 0 @ replicate 24 0)) initial
     = Done (Some (empty_doc (replicate 20 0)), initial)
   \<and> VMDWriteToFile False (Some (empty_doc (replicate 20 0))) initial
       = Done (True, Some (VMDLIB_MAGIC @ replicate 20 0 @ replicate 24 0), initial)"
  using decode_empty_categories [of "plain_file (VMDLIB_MAGIC @ replicate 20 0 @ replicate 24 0)"
      "replicate 20 0" initial]
  by (simp add: readable_plain_file file_bytes_plain_file)

subsection \<open>C10: ShowIK records have a fixed size\<close>




end
